(* ===== verification/Prelude.thy ===== *)
theory Prelude
  imports Main "HOL-Library.Char_ord" "HOL-Library.List_Lexorder" "HOL-Library.Multiset"
    "HOL-Library.AList"
begin

text \<open>
  What every component shares: the part of the Go language and of its standard library the
  sources use. Errors are values (\<open>go_error\<close>), a call that may fail and may change the outside
  world is a function of type \<open>('w, 'a) io\<close>, a Go map is an association list whose order stands
  for the order a \<open>range\<close> statement visits it in (Go leaves that order open, so no theorem may
  depend on it), and \<open>sort.Strings\<close>, \<open>strings.Cut\<close>, \<open>strings.Join\<close>, \<open>fmt.Sprintf\<close> and their kin
  are functions on byte strings. The generic lemmas on lists, maps and sorting that the component
  theories rely on are at the end.
\<close>

section \<open>Collections of facts\<close>

named_theorems io_simps \<open>unfolding the error-and-world plumbing of a handler\<close>
named_theorems stamp_simps \<open>what the cluster marker does to the fields of an object\<close>

section \<open>Errors\<close>

text \<open>
  \<open>schema.GroupResource\<close>, the part of an API status that names what it is about.
\<close>

record group_resource =
  gr_group :: string
  gr_resource :: string

text \<open>
  An error of the program. \<open>New m\<close> is \<open>errors.New\<close> or a \<open>fmt.Errorf\<close> without \<open>%w\<close>, \<open>Wrapf f as e\<close>
  is \<open>fmt.Errorf(f, as..., e)\<close> with \<open>%w\<close> as its last verb, \<open>Join\<close> is \<open>errors.Join\<close>, \<open>Status\<close> is an
  error of the Kubernetes API. \<open>NotFound\<close> stands for every status \<open>apierrors.IsNotFound\<close> accepts,
  \<open>OtherStatus\<close> for the reasons the program never looks at.
\<close>

datatype go_error =
    New string
  | Wrapf string "string list" go_error
  | Status api_status
  | Join "go_error list"
and api_status =
    NotFound group_resource string
  | Conflict group_resource string go_error
  | BadRequest string
  | InternalError go_error
  | OtherStatus string string

type_synonym 'a result = "go_error + 'a"

text \<open>
  \<open>errors.As\<close> for an API status: the first status met on a depth-first walk through the wrapped
  errors. \<open>apierrors.NewInternalError\<close> keeps only the message of its argument, so the walk stops
  at a status.
\<close>

fun find_status :: "go_error \<Rightarrow> api_status option"
  and find_status_list :: "go_error list \<Rightarrow> api_status option" where
  "find_status (New m) = None"
| "find_status (Wrapf f as e) = find_status e"
| "find_status (Status s) = Some s"
| "find_status (Join es) = find_status_list es"
| "find_status_list [] = None"
| "find_status_list (e # es) =
     (case find_status e of Some s \<Rightarrow> Some s | None \<Rightarrow> find_status_list es)"

definition IsNotFound :: "go_error \<Rightarrow> bool" where
  "IsNotFound e = (case find_status e of Some (NotFound gr n) \<Rightarrow> True | _ \<Rightarrow> False)"

definition IsConflict :: "go_error \<Rightarrow> bool" where
  "IsConflict e = (case find_status e of Some (Conflict gr n c) \<Rightarrow> True | _ \<Rightarrow> False)"

definition IsBadRequest :: "go_error \<Rightarrow> bool" where
  "IsBadRequest e = (case find_status e of Some (BadRequest m) \<Rightarrow> True | _ \<Rightarrow> False)"

definition IsInternalError :: "go_error \<Rightarrow> bool" where
  "IsInternalError e = (case find_status e of Some (InternalError c) \<Rightarrow> True | _ \<Rightarrow> False)"

section \<open>Calls that may fail and change the world\<close>

type_synonym ('w, 'a) io = "'w \<Rightarrow> 'a result \<times> 'w"

definition ret :: "'a \<Rightarrow> ('w, 'a) io" where
  "ret x w = (Inr x, w)"

definition fail :: "go_error \<Rightarrow> ('w, 'a) io" where
  "fail e w = (Inl e, w)"

text \<open>\<open>x, err := m; if err != nil { return err }; k(x)\<close>\<close>

definition bind_io :: "('w, 'a) io \<Rightarrow> ('a \<Rightarrow> ('w, 'b) io) \<Rightarrow> ('w, 'b) io" where
  "bind_io m k w = (case m w of (Inl e, w') \<Rightarrow> (Inl e, w') | (Inr x, w') \<Rightarrow> k x w')"

text \<open>\<open>if err := m; err != nil { return f(err) }\<close> around a call\<close>

definition map_err :: "(go_error \<Rightarrow> go_error) \<Rightarrow> ('w, 'a) io \<Rightarrow> ('w, 'a) io" where
  "map_err f m w = (case m w of (Inl e, w') \<Rightarrow> (Inl (f e), w') | (Inr x, w') \<Rightarrow> (Inr x, w'))"

definition lift_result :: "'a result \<Rightarrow> ('w, 'a) io" where
  "lift_result r w = (r, w)"

section \<open>Strings\<close>

definition Contains :: "string \<Rightarrow> char \<Rightarrow> bool" where
  "Contains s c = (c \<in> set s)"

fun strings_Join :: "string list \<Rightarrow> string \<Rightarrow> string" where
  "strings_Join [] sep = []"
| "strings_Join [x] sep = x"
| "strings_Join (x # y # xs) sep = x @ sep @ strings_Join (y # xs) sep"

text \<open>\<open>strings.Cut\<close> at a one-byte separator: what is before it, what is after it, whether it occurs.\<close>

fun strings_Cut :: "string \<Rightarrow> char \<Rightarrow> string \<times> string \<times> bool" where
  "strings_Cut [] sep = ([], [], False)"
| "strings_Cut (c # s) sep =
     (if c = sep then ([], s, True)
      else (case strings_Cut s sep of (before, after, found) \<Rightarrow>
        if found then (c # before, after, True) else (c # s, [], False)))"

definition HasSuffix :: "string \<Rightarrow> string \<Rightarrow> bool" where
  "HasSuffix s suf = (length suf \<le> length s \<and> drop (length s - length suf) s = suf)"

definition CutSuffix :: "string \<Rightarrow> string \<Rightarrow> string \<times> bool" where
  "CutSuffix s suf =
     (if HasSuffix s suf then (take (length s - length suf) s, True) else (s, False))"

text \<open>Decimal digits: \<open>strconv.Itoa\<close> and the verb \<open>%d\<close>.\<close>

fun digits :: "nat \<Rightarrow> string" where
  "digits n = (if n < 10 then [char_of (48 + n)] else digits (n div 10) @ [char_of (48 + n mod 10)])"

definition strconv_Itoa :: "int \<Rightarrow> string" where
  "strconv_Itoa i = (if i < 0 then ''-'' @ digits (nat (- i)) else digits (nat i))"

declare digits.simps [simp del]

text \<open>
  \<open>strconv.Quote\<close>, which the verb \<open>%q\<close> uses: quotes and backslashes are escaped, the control
  characters are written with their escape sequences. Bytes of multi-byte characters stay.
\<close>

definition hex_digit :: "nat \<Rightarrow> char" where
  "hex_digit n = ''0123456789abcdef'' ! n"

definition quote_char :: "char \<Rightarrow> string" where
  "quote_char c =
     (if c = CHR 0x22 \<or> c = CHR 0x5C then [CHR 0x5C, c]
      else if c = CHR 0x07 then [CHR 0x5C, CHR ''a'']
      else if c = CHR 0x08 then [CHR 0x5C, CHR ''b'']
      else if c = CHR 0x09 then [CHR 0x5C, CHR ''t'']
      else if c = CHR 0x0A then [CHR 0x5C, CHR ''n'']
      else if c = CHR 0x0B then [CHR 0x5C, CHR ''v'']
      else if c = CHR 0x0C then [CHR 0x5C, CHR ''f'']
      else if c = CHR 0x0D then [CHR 0x5C, CHR ''r'']
      else if of_char c < (32 :: nat) \<or> of_char c = (127 :: nat)
        then [CHR 0x5C, CHR ''x'', hex_digit (of_char c div 16), hex_digit (of_char c mod 16)]
      else [c])"

definition strconv_Quote :: "string \<Rightarrow> string" where
  "strconv_Quote s = CHR 0x22 # concat (map quote_char s) @ [CHR 0x22]"

text \<open>
  \<open>fmt.Sprintf\<close> with the arguments already rendered as text: \<open>%q\<close> quotes its argument, every
  other verb of the sources (\<open>%s\<close>, \<open>%v\<close>, \<open>%d\<close>, \<open>%T\<close>, \<open>%w\<close>) inserts it.
\<close>

fun sprintf :: "string \<Rightarrow> string list \<Rightarrow> string" where
  "sprintf [] args = []"
| "sprintf [c] args = [c]"
| "sprintf (c # v # fs) args =
     (if c = CHR ''%'' \<and> args \<noteq> []
      then (if v = CHR ''q'' then strconv_Quote (hd args) else hd args) @ sprintf fs (tl args)
      else c # sprintf (v # fs) args)"

text \<open>
  \<open>err.Error()\<close>. The message of an API status comes from the Kubernetes libraries (\<open>status_text\<close>).
\<close>

fun error_text :: "(api_status \<Rightarrow> string) \<Rightarrow> go_error \<Rightarrow> string" where
  "error_text status_text (New m) = m"
| "error_text status_text (Wrapf f as e) = sprintf f (as @ [error_text status_text e])"
| "error_text status_text (Status st) = status_text st"
| "error_text status_text (Join es) = strings_Join (map (error_text status_text) es) [CHR 0x0A]"

section \<open>Sorting\<close>

text \<open>
  \<open>sort.Slice(xs, less)\<close>. The library's sort is not stable; where two elements are equivalent
  under \<open>less\<close> the model picks one of the orders the library may return, and the theorems state
  what every order satisfies.
\<close>

fun insert_by :: "('a \<Rightarrow> 'a \<Rightarrow> bool) \<Rightarrow> 'a \<Rightarrow> 'a list \<Rightarrow> 'a list" where
  "insert_by lt x [] = [x]"
| "insert_by lt x (y # ys) = (if lt y x then y # insert_by lt x ys else x # y # ys)"

definition sort_Slice :: "('a \<Rightarrow> 'a \<Rightarrow> bool) \<Rightarrow> 'a list \<Rightarrow> 'a list" where
  "sort_Slice lt xs = foldr (insert_by lt) xs []"

definition sort_Strings :: "string list \<Rightarrow> string list" where
  "sort_Strings xs = sort_Slice (<) xs"

section \<open>Order-free reasoning about maps and sorting\<close>

abbreviation keys :: "('k \<times> 'v) list \<Rightarrow> 'k list" where
  "keys m \<equiv> map fst m"

abbreviation wf_map :: "('k \<times> 'v) list \<Rightarrow> bool" where
  "wf_map m \<equiv> distinct (keys m)"

lemma ret_simp [io_simps]: "ret x w = (Inr x, w)"
  by (simp add: ret_def)

lemma fail_simp [io_simps]: "fail e w = (Inl e, w)"
  by (simp add: fail_def)

lemma lift_result_simp [io_simps]: "lift_result r w = (r, w)"
  by (simp add: lift_result_def)

lemma bind_io_Inl [io_simps]: "m w = (Inl e, w') \<Longrightarrow> bind_io m k w = (Inl e, w')"
  by (simp add: bind_io_def)

lemma bind_io_Inr [io_simps]: "m w = (Inr x, w') \<Longrightarrow> bind_io m k w = k x w'"
  by (simp add: bind_io_def)

lemma bind_io_eq_Inr:
  "bind_io m k w = (Inr y, w'') \<longleftrightarrow> (\<exists>x w'. m w = (Inr x, w') \<and> k x w' = (Inr y, w''))"
  by (auto simp: bind_io_def split: prod.splits sum.splits)

lemma bind_io_eq_Inl:
  "bind_io m k w = (Inl e, w'') \<longleftrightarrow>
     m w = (Inl e, w'') \<or> (\<exists>x w'. m w = (Inr x, w') \<and> k x w' = (Inl e, w''))"
  by (auto simp: bind_io_def split: prod.splits sum.splits)

lemma map_err_eq_Inr: "map_err f m w = (Inr x, w') \<longleftrightarrow> m w = (Inr x, w')"
  by (auto simp: map_err_def split: prod.splits sum.splits)

lemma map_err_eq_Inl: "map_err f m w = (Inl e, w') \<longleftrightarrow> (\<exists>e'. m w = (Inl e', w') \<and> e = f e')"
  by (auto simp: map_err_def split: prod.splits sum.splits)

lemmas io_invert = bind_io_eq_Inr bind_io_eq_Inl map_err_eq_Inr map_err_eq_Inl

lemma find_status_kinds [simp]:
  "IsNotFound (Status (NotFound gr n))"
  "\<not> IsNotFound (Status (Conflict gr n c))"
  "\<not> IsNotFound (Status (BadRequest m))"
  "\<not> IsNotFound (Status (InternalError c))"
  "\<not> IsNotFound (New m)"
  "IsNotFound (Wrapf f as e) = IsNotFound e"
  "IsConflict (Status (Conflict gr n c))"
  "IsBadRequest (Status (BadRequest m))"
  "IsInternalError (Status (InternalError c))"
  by (simp_all add: IsNotFound_def IsConflict_def IsBadRequest_def IsInternalError_def)

lemma status_kinds_disjoint:
  "IsNotFound e \<Longrightarrow> \<not> IsInternalError e \<and> \<not> IsConflict e \<and> \<not> IsBadRequest e"
  by (simp add: IsNotFound_def IsInternalError_def IsConflict_def IsBadRequest_def
      split: option.splits api_status.splits)

text \<open>Two sorted arrangements of the same elements agree when no two elements have the same key:
  what \<open>sort.Slice\<close> returns is then determined, although it is not a stable sort.\<close>

lemma sorted_arrangement_unique:
  fixes f :: "'a \<Rightarrow> 'b::linorder"
  assumes "mset xs = mset ys" and "sorted (map f xs)" and "sorted (map f ys)"
    and "inj_on f (set xs)"
  shows "xs = ys"
proof -
  have "mset (map f xs) = mset (map f ys)"
    using assms(1) by simp
  then have eq: "map f xs = map f ys"
    using assms(2,3) by (metis properties_for_sort)
  have "set ys = set xs"
    using assms(1) by (metis set_mset_mset)
  then show ?thesis
    using eq assms(4) by (metis map_inj_on sup.idem)
qed

lemma insert_by_key:
  assumes "\<And>a b. lt a b \<longleftrightarrow> f a < f b"
  shows "insert_by lt x xs = insort_key f x xs"
  by (induction xs) (auto simp: assms)

lemma sort_Slice_key:
  assumes "\<And>a b. lt a b \<longleftrightarrow> f a < f b"
  shows "sort_Slice lt xs = sort_key f xs"
  by (induction xs) (simp_all add: sort_Slice_def insert_by_key [OF assms])

lemma sort_Strings_eq: "sort_Strings xs = sort xs"
  by (simp add: sort_Strings_def sort_Slice_key [where f = "\<lambda>x. x"])

lemma mset_sort_Strings [simp]: "mset (sort_Strings xs) = mset xs"
  by (simp add: sort_Strings_eq)

lemma set_sort_Strings [simp]: "set (sort_Strings xs) = set xs"
  by (simp add: sort_Strings_eq)

lemma sorted_sort_Strings [simp]: "sorted (sort_Strings xs)"
  by (simp add: sort_Strings_eq)

lemma sort_Strings_cong: "mset xs = mset ys \<Longrightarrow> sort_Strings xs = sort_Strings ys"
  by (metis mset_sort_Strings properties_for_sort sort_Strings_eq sorted_sort_Strings)

lemma mset_concat_map: "mset (concat (map f xs)) = \<Sum>\<^sub># (image_mset (\<lambda>x. mset (f x)) (mset xs))"
  by (induction xs) auto

lemma mset_concat_map_cong:
  "mset xs = mset ys \<Longrightarrow> mset (concat (map f xs)) = mset (concat (map f ys))"
  by (simp only: mset_concat_map)

lemma mset_map_of_eq:
  assumes "wf_map xs" and "mset xs = mset ys"
  shows "map_of xs = map_of ys"
proof -
  have "set xs = set ys" using assms(2) by (metis set_mset_mset)
  moreover have "wf_map ys" using assms by (metis mset_eq_imp_distinct_iff mset_map)
  ultimately show ?thesis using assms(1) by (simp add: map_of_inject_set)
qed

lemma strings_Cut_found:
  "sep \<notin> set before \<Longrightarrow> strings_Cut (before @ sep # after) sep = (before, after, True)"
  by (induction before) auto

lemma strings_Cut_not_found: "sep \<notin> set s \<Longrightarrow> strings_Cut s sep = (s, [], False)"
  by (induction s) auto

lemma CutSuffix_append [simp]: "CutSuffix (s @ suf) suf = (s, True)"
  by (simp add: CutSuffix_def HasSuffix_def)

lemma CutSuffix_found:
  assumes "CutSuffix s suf = (p, True)"
  shows "s = p @ suf"
proof -
  from assms have "drop (length s - length suf) s = suf" and "p = take (length s - length suf) s"
    by (auto simp: CutSuffix_def HasSuffix_def split: if_splits)
  then show ?thesis by (metis append_take_drop_id)
qed

lemma CutSuffix_found_iff: "CutSuffix s suf = (p, True) \<longleftrightarrow> s = p @ suf"
  using CutSuffix_found by auto

section \<open>State machines\<close>

text \<open>
  The rule every state machine of the development uses: what holds initially and is kept by every
  step holds in every state that is reached.
\<close>

locale inductive_invariant =
  fixes init :: "'s \<Rightarrow> bool" and step :: "'s \<Rightarrow> 's \<Rightarrow> bool" and invar :: "'s \<Rightarrow> bool"
  assumes init_invar: "init s \<Longrightarrow> invar s"
    and step_invar: "invar s \<Longrightarrow> step s t \<Longrightarrow> invar t"
begin

lemma steps_invar: "step\<^sup>*\<^sup>* s t \<Longrightarrow> invar s \<Longrightarrow> invar t"
  by (induction rule: rtranclp_induct) (auto intro: step_invar)

lemma reached_invar: "init s \<Longrightarrow> step\<^sup>*\<^sup>* s t \<Longrightarrow> invar t"
  by (blast intro: steps_invar init_invar)

end

text \<open>
  The rule of every refinement: under an invariant, a step of the concrete machine is a step of the
  abstract one between the abstracted states; then so is a run.
\<close>

locale simulation = inductive_invariant init step invar
  for init :: "'s \<Rightarrow> bool" and step :: "'s \<Rightarrow> 's \<Rightarrow> bool" and invar :: "'s \<Rightarrow> bool" +
  fixes abs :: "'s \<Rightarrow> 'a" and astep :: "'a \<Rightarrow> 'a \<Rightarrow> bool"
  assumes step_simulates: "invar s \<Longrightarrow> step s t \<Longrightarrow> astep (abs s) (abs t)"
begin

lemma steps_simulate:
  assumes "step\<^sup>*\<^sup>* s t" and "invar s"
  shows "astep\<^sup>*\<^sup>* (abs s) (abs t)"
  using assms
proof (induction rule: rtranclp_induct)
  case (step t u)
  have "invar t" using step.hyps(1) step.prems by (rule steps_invar)
  from step_simulates [OF this step.hyps(2)] step.IH [OF step.prems] show ?case by simp
qed simp

lemma run_simulates: "init s \<Longrightarrow> step\<^sup>*\<^sup>* s t \<Longrightarrow> astep\<^sup>*\<^sup>* (abs s) (abs t)"
  by (blast intro: steps_simulate init_invar)

end

end
