(* ===== verification/Kube.thy ===== *)
theory Kube
  imports Prelude
begin

text \<open>
  The data of the Kubernetes client libraries that the sources handle: identifiers of kinds and
  resources, unstructured objects and lists, request contexts and options, and the interface
  values (\<open>dynamic.Interface\<close>, \<open>labels.Selector\<close>, \<open>rest.UpdatedObjectInfo\<close>) through which they
  call code that is not in the repository. An interface value is a record of the functions that
  are called on it; every definition that uses one takes it as an argument.
\<close>

section \<open>Identifiers\<close>

record group_version =
  gv_group :: string
  gv_version :: string

record group_version_resource =
  gvr_group :: string
  gvr_version :: string
  gvr_resource :: string

record group_version_kind =
  gvk_group :: string
  gvk_version :: string
  gvk_kind :: string

definition GVR_GroupResource :: "group_version_resource \<Rightarrow> group_resource" where
  "GVR_GroupResource g = \<lparr>gr_group = gvr_group g, gr_resource = gvr_resource g\<rparr>"

definition GVR_GroupVersion :: "group_version_resource \<Rightarrow> group_version" where
  "GVR_GroupVersion g = \<lparr>gv_group = gvr_group g, gv_version = gvr_version g\<rparr>"

definition GVK_GroupVersion :: "group_version_kind \<Rightarrow> group_version" where
  "GVK_GroupVersion g = \<lparr>gv_group = gvk_group g, gv_version = gvk_version g\<rparr>"

definition WithKind :: "group_version \<Rightarrow> string \<Rightarrow> group_version_kind" where
  "WithKind g k = \<lparr>gvk_group = gv_group g, gvk_version = gv_version g, gvk_kind = k\<rparr>"

definition WithResource :: "group_version \<Rightarrow> string \<Rightarrow> group_version_resource" where
  "WithResource g r = \<lparr>gvr_group = gv_group g, gvr_version = gv_version g, gvr_resource = r\<rparr>"

definition GVK_Empty :: "group_version_kind \<Rightarrow> bool" where
  "GVK_Empty g = (gvk_group g = '''' \<and> gvk_version g = '''' \<and> gvk_kind g = '''')"

section \<open>Objects\<close>

text \<open>
  The content of an object the program passes on unread.
\<close>

datatype json =
    JNull
  | JBool bool
  | JNum int
  | JStr string
  | JArr "json list"
  | JObj "(string \<times> json) list"

type_synonym string_map = "string \<rightharpoonup> string"

text \<open>
  \<open>unstructured.Unstructured\<close> by the fields its accessors read and write. \<open>GetAnnotations\<close> and
  \<open>GetLabels\<close> return a fresh map or \<open>nil\<close> (\<open>None\<close>), and setting \<open>nil\<close> removes the field.
\<close>

record unstructured =
  u_gvk :: group_version_kind
  u_namespace :: string
  u_name :: string
  u_resourceVersion :: string
  u_annotations :: "string_map option"
  u_labels :: "string_map option"
  u_content :: json

record unstructured_list =
  l_gvk :: group_version_kind
  l_resourceVersion :: string
  l_continue :: string
  l_items :: "unstructured list"

text \<open>
  \<open>runtime.Object\<close>: what a type switch of the program can tell apart. A typed object has a type name
  and, when it implements \<open>metav1.Object\<close>, annotations.
\<close>

datatype runtime_object =
    Unstructured unstructured
  | UnstructuredList unstructured_list
  | TypedObject string "string_map option option"

definition empty_unstructured :: unstructured where
  "empty_unstructured =
     \<lparr>u_gvk = \<lparr>gvk_group = '''', gvk_version = '''', gvk_kind = ''''\<rparr>, u_namespace = '''',
      u_name = '''', u_resourceVersion = '''', u_annotations = None, u_labels = None,
      u_content = JObj []\<rparr>"

definition empty_list :: unstructured_list where
  "empty_list =
     \<lparr>l_gvk = \<lparr>gvk_group = '''', gvk_version = '''', gvk_kind = ''''\<rparr>, l_resourceVersion = '''',
      l_continue = '''', l_items = []\<rparr>"

text \<open>\<open>m[k]\<close> on a possibly nil \<open>map[string]string\<close>: the zero value when the key is missing.\<close>

definition map_get :: "string_map option \<Rightarrow> string \<Rightarrow> string" where
  "map_get m k = (case m of None \<Rightarrow> '''' | Some f \<Rightarrow> (case f k of None \<Rightarrow> '''' | Some v \<Rightarrow> v))"

section \<open>Requests\<close>

text \<open>
  A request context: the namespace \<open>request.NamespaceValue\<close> reads from it and whether it has been
  cancelled when a call is made under it.
\<close>

record ctx =
  ctx_namespace :: string
  ctx_cancelled :: bool

record get_options =
  go_resourceVersion :: string

record write_options =
  wo_dryRun :: "string list"
  wo_fieldManager :: string
  wo_fieldValidation :: string

record delete_options =
  do_dryRun :: "string list"
  do_gracePeriodSeconds :: "int option"
  do_propagationPolicy :: "string option"

text \<open>\<open>metav1.ListOptions\<close>, what goes to a member cluster.\<close>

record list_options =
  lo_labelSelector :: string
  lo_fieldSelector :: string
  lo_limit :: int
  lo_resourceVersion :: string
  lo_allowWatchBookmarks :: bool
  lo_watch :: bool

definition no_list_options :: list_options where
  "no_list_options =
     \<lparr>lo_labelSelector = '''', lo_fieldSelector = '''', lo_limit = 0, lo_resourceVersion = '''',
      lo_allowWatchBookmarks = False, lo_watch = False\<rparr>"

text \<open>
  \<open>metainternalversion.ListOptions\<close>, what the aggregated API server receives. The label selector
  is a value of the \<open>labels\<close> package (type \<open>'sel\<close>); of a field selector only \<open>String()\<close> is used.
\<close>

record 'sel internal_list_options =
  ilo_labelSelector :: "'sel option"
  ilo_fieldSelector :: "string option"
  ilo_limit :: int
  ilo_sendInitialEvents :: "bool option"
  ilo_allowWatchBookmarks :: bool

definition no_internal_list_options :: "'sel internal_list_options" where
  "no_internal_list_options =
     \<lparr>ilo_labelSelector = None, ilo_fieldSelector = None, ilo_limit = 0,
      ilo_sendInitialEvents = None, ilo_allowWatchBookmarks = False\<rparr>"

section \<open>Interface values\<close>

text \<open>
  \<open>dynamic.ResourceInterface\<close>: one resource of one member cluster. \<open>'w\<close> is the state of everything
  outside the program, \<open>'h\<close> the handles of open watches.
\<close>

record ('w, 'h) resource_interface =
  ri_Get :: "ctx \<Rightarrow> string \<Rightarrow> get_options \<Rightarrow> ('w, unstructured) io"
  ri_List :: "ctx \<Rightarrow> list_options \<Rightarrow> ('w, unstructured_list) io"
  ri_Create :: "ctx \<Rightarrow> unstructured \<Rightarrow> write_options \<Rightarrow> ('w, unstructured) io"
  ri_Update :: "ctx \<Rightarrow> unstructured \<Rightarrow> write_options \<Rightarrow> ('w, unstructured) io"
  ri_UpdateStatus :: "ctx \<Rightarrow> unstructured \<Rightarrow> write_options \<Rightarrow> ('w, unstructured) io"
  ri_Delete :: "ctx \<Rightarrow> string \<Rightarrow> delete_options \<Rightarrow> ('w, unit) io"
  ri_DeleteCollection :: "ctx \<Rightarrow> delete_options \<Rightarrow> list_options \<Rightarrow> ('w, unit) io"
  ri_Watch :: "ctx \<Rightarrow> list_options \<Rightarrow> ('w, 'h) io"
  ri_Stop :: "'h \<Rightarrow> 'w \<Rightarrow> 'w"

text \<open>\<open>dynamic.Interface\<close>: \<open>Resource(gvr)\<close>, then \<open>Namespace(ns)\<close> for \<open>Some ns\<close>.\<close>

type_synonym ('w, 'h) dynamic_client =
  "group_version_resource \<Rightarrow> string option \<Rightarrow> ('w, 'h) resource_interface"

text \<open>
  The \<open>labels\<close> package: selectors (type \<open>'sel\<close>) and requirements (type \<open>'req\<close>).
\<close>

record ('sel, 'req) labels_pkg =
  lp_NewSelector :: 'sel
  lp_Add :: "'sel \<Rightarrow> 'req \<Rightarrow> 'sel"
  lp_Empty :: "'sel \<Rightarrow> bool"
  lp_Requirements :: "'sel \<Rightarrow> 'req list \<times> bool"
  lp_Matches :: "'sel \<Rightarrow> string_map \<Rightarrow> bool"
  lp_String :: "'sel \<Rightarrow> string"
  lp_Key :: "'req \<Rightarrow> string"

text \<open>
  What the package documents. \<open>sem r ls\<close> is the meaning of a requirement on a label set: a
  requirement looks at the value of its own key only; a selectable selector matches when all its
  requirements do; \<open>NewSelector\<close> has none; \<open>Add\<close> adds one, in whatever position; a selector is
  empty when it restricts nothing.
\<close>

definition labels_laws ::
  "('sel, 'req) labels_pkg \<Rightarrow> ('req \<Rightarrow> string_map \<Rightarrow> bool) \<Rightarrow> bool" where
  "labels_laws L sem \<longleftrightarrow>
     (\<forall>r ls ls'. ls (lp_Key L r) = ls' (lp_Key L r) \<longrightarrow> sem r ls = sem r ls') \<and>
     (\<forall>s rs. lp_Requirements L s = (rs, True) \<longrightarrow>
        (\<forall>ls. lp_Matches L s ls = (\<forall>r \<in> set rs. sem r ls)) \<and> lp_Empty L s = (rs = []) \<and>
        (\<forall>r. \<exists>rs'. lp_Requirements L (lp_Add L s r) = (rs', True) \<and> mset rs' = add_mset r (mset rs))) \<and>
     lp_Requirements L (lp_NewSelector L) = ([], True)"

text \<open>\<open>rest.UpdatedObjectInfo\<close> and the validation callbacks of the API server (\<open>None\<close> is \<open>nil\<close>).\<close>

type_synonym updated_object_info = "ctx \<Rightarrow> runtime_object \<Rightarrow> runtime_object result"

type_synonym validate_object = "(ctx \<Rightarrow> unstructured \<Rightarrow> go_error option) option"

type_synonym validate_update = "(ctx \<Rightarrow> unstructured \<Rightarrow> unstructured \<Rightarrow> go_error option) option"

section \<open>Lemmas\<close>

lemma map_get_simps [simp]:
  "map_get None k = ''''"
  "map_get (Some (m(k \<mapsto> v))) k = v"
  by (simp_all add: map_get_def)

lemma labels_sem_key:
  assumes "labels_laws L sem" and "ls (lp_Key L r) = ls' (lp_Key L r)"
  shows "sem r ls = sem r ls'"
proof -
  have "\<forall>r ls ls'. ls (lp_Key L r) = ls' (lp_Key L r) \<longrightarrow> sem r ls = sem r ls'"
    using assms(1) unfolding labels_laws_def by (rule conjunct1)
  then show ?thesis using assms(2) by metis
qed

lemma labels_selectable:
  assumes "labels_laws L sem" and "lp_Requirements L s = (rs, True)"
  shows "(\<forall>ls. lp_Matches L s ls = (\<forall>r \<in> set rs. sem r ls)) \<and> lp_Empty L s = (rs = []) \<and>
    (\<forall>r. \<exists>rs'. lp_Requirements L (lp_Add L s r) = (rs', True) \<and> mset rs' = add_mset r (mset rs))"
proof -
  note laws = assms(1) [unfolded labels_laws_def, THEN conjunct2, THEN conjunct1]
  show ?thesis by (rule laws [THEN spec, THEN spec, THEN mp, OF assms(2)])
qed

lemma labels_Matches:
  assumes "labels_laws L sem" and "lp_Requirements L s = (rs, True)"
  shows "lp_Matches L s ls = (\<forall>r \<in> set rs. sem r ls)"
  using labels_selectable [OF assms] by (elim conjE) (erule spec)

lemma labels_Empty:
  assumes "labels_laws L sem" and "lp_Requirements L s = (rs, True)"
  shows "lp_Empty L s = (rs = [])"
  using labels_selectable [OF assms] by (elim conjE)

lemma labels_Add:
  assumes "labels_laws L sem" and "lp_Requirements L s = (rs, True)"
  obtains rs' where "lp_Requirements L (lp_Add L s r) = (rs', True)"
    and "mset rs' = add_mset r (mset rs)"
  using labels_selectable [OF assms] by (elim conjE) (erule allE [where x = r], elim exE conjE)

lemma labels_New:
  assumes "labels_laws L sem"
  shows "lp_Requirements L (lp_NewSelector L) = ([], True)"
  using assms [unfolded labels_laws_def] by (elim conjE)

end
