(* ===== verification/Metadata.thy ===== *)
theory Metadata
  imports Kube
begin

text \<open>
  \<open>apis/v1alpha1/metadata.go\<close> and \<open>pkg/apiserver/storage/metadata.go\<close>: the cluster annotation and
  the virtual cluster label, how they are put on objects read from a member cluster (\<open>stamp\<close>) and
  taken off objects written to one (\<open>strip\<close>), and how a label selector is split into the part a
  member cluster evaluates and the part that selects clusters (\<open>splitClusterSelector\<close>).
\<close>

section \<open>Definitions\<close>

definition ClusterAnnotation :: string where
  "ClusterAnnotation = ''aggregation.ntnn.dev/cluster''"

definition ClusterLabel :: string where
  "ClusterLabel = ''aggregation.ntnn.dev/cluster''"

definition stamp :: "unstructured \<Rightarrow> string \<Rightarrow> unstructured" where
  "stamp obj cluster =
     (let annotations = (case u_annotations obj of None \<Rightarrow> Map.empty | Some m \<Rightarrow> m);
          obj = obj\<lparr>u_annotations := Some (annotations(ClusterAnnotation \<mapsto> cluster))\<rparr>;
          objLabels = (case u_labels obj of None \<Rightarrow> Map.empty | Some m \<Rightarrow> m)
      in obj\<lparr>u_labels := Some (objLabels(ClusterLabel \<mapsto> cluster))\<rparr>)"

text \<open>\<open>delete\<close> on a nil map does nothing, and the accessors keep nil and the empty map apart.\<close>

definition strip :: "unstructured \<Rightarrow> unstructured" where
  "strip obj =
     (let annotations = map_option (\<lambda>m. m(ClusterAnnotation := None)) (u_annotations obj);
          obj = obj\<lparr>u_annotations := annotations\<rparr>;
          objLabels = map_option (\<lambda>m. m(ClusterLabel := None)) (u_labels obj)
      in obj\<lparr>u_labels := objLabels\<rparr>)"

text \<open>The loop of \<open>splitClusterSelector\<close> over the requirements, with its two accumulators.\<close>

fun split_requirements ::
  "('sel, 'req) labels_pkg \<Rightarrow> 'req list \<Rightarrow> 'sel \<Rightarrow> 'sel \<Rightarrow> 'sel \<times> 'sel" where
  "split_requirements L [] remote clusterReqs = (remote, clusterReqs)"
| "split_requirements L (requirement # rs) remote clusterReqs =
     (if lp_Key L requirement = ClusterLabel
      then split_requirements L rs remote (lp_Add L clusterReqs requirement)
      else split_requirements L rs (lp_Add L remote requirement) clusterReqs)"

definition splitClusterSelector ::
  "('sel, 'req) labels_pkg \<Rightarrow> 'sel option \<Rightarrow> 'sel option \<times> (string \<Rightarrow> bool)" where
  "splitClusterSelector L selector =
     (case selector of
        None \<Rightarrow> (None, \<lambda>_. True)
      | Some sel \<Rightarrow>
          if lp_Empty L sel then (selector, \<lambda>_. True)
          else (case lp_Requirements L sel of (requirements, selectable) \<Rightarrow>
            if \<not> selectable then (selector, \<lambda>_. True)
            else (case split_requirements L requirements (lp_NewSelector L) (lp_NewSelector L) of
              (remote, clusterReqs) \<Rightarrow>
                if lp_Empty L clusterReqs then (selector, \<lambda>_. True)
                else (Some remote,
                      \<lambda>cluster. lp_Matches L clusterReqs [ClusterLabel \<mapsto> cluster]))))"

text \<open>The cluster an object says it comes from: \<open>obj.GetAnnotations()[v1alpha1.ClusterAnnotation]\<close>.\<close>

definition cluster_of :: "unstructured \<Rightarrow> string" where
  "cluster_of obj = map_get (u_annotations obj) ClusterAnnotation"

text \<open>An object carries none of the metadata the aggregator owns.\<close>

definition unmarked :: "unstructured \<Rightarrow> bool" where
  "unmarked obj \<longleftrightarrow>
     (\<forall>m. u_annotations obj = Some m \<longrightarrow> m ClusterAnnotation = None) \<and>
     (\<forall>m. u_labels obj = Some m \<longrightarrow> m ClusterLabel = None)"

text \<open>The labels of an object as a selector sees them.\<close>

definition label_set :: "unstructured \<Rightarrow> string_map" where
  "label_set obj = (case u_labels obj of None \<Rightarrow> Map.empty | Some m \<Rightarrow> m)"

text \<open>What a member cluster is asked to match when the remote selector may be nil.\<close>

definition remote_matches :: "('sel, 'req) labels_pkg \<Rightarrow> 'sel option \<Rightarrow> string_map \<Rightarrow> bool" where
  "remote_matches L remote ls = (case remote of None \<Rightarrow> True | Some sel \<Rightarrow> lp_Matches L sel ls)"

section \<open>The marker interface\<close>

text \<open>
  What readers and writers rely on: a mark can be read back, the last mark wins, removing marks
  forgets which mark there was, and a removed mark is gone.
\<close>

locale cluster_marker =
  fixes mark :: "'o \<Rightarrow> 'c \<Rightarrow> 'o" and unmark :: "'o \<Rightarrow> 'o"
    and source :: "'o \<Rightarrow> 'c" and clean :: "'o \<Rightarrow> bool"
  assumes source_mark: "source (mark x c) = c"
    and mark_mark: "mark (mark x c) d = mark x d"
    and unmark_mark: "unmark (mark (unmark x) c) = unmark (mark x c)"
    and clean_unmark: "clean (unmark x)"
    and unmark_clean: "clean x \<Longrightarrow> unmark x = x"
begin

lemma unmark_idem: "unmark (unmark x) = unmark x"
  by (rule unmark_clean [OF clean_unmark])

lemma mark_inject: "mark x c = mark x d \<longleftrightarrow> c = d"
  by (metis source_mark)

lemma sources_of_marked: "map (\<lambda>x. source (mark x c)) xs = replicate (length xs) c"
  by (induction xs) (simp_all add: source_mark)

end

section \<open>Lemmas\<close>

lemma stamp_fields [stamp_simps]:
  "u_gvk (stamp obj c) = u_gvk obj"
  "u_namespace (stamp obj c) = u_namespace obj"
  "u_name (stamp obj c) = u_name obj"
  "u_resourceVersion (stamp obj c) = u_resourceVersion obj"
  "u_content (stamp obj c) = u_content obj"
  by (simp_all add: stamp_def Let_def)

lemma strip_fields [stamp_simps]:
  "u_gvk (strip obj) = u_gvk obj"
  "u_namespace (strip obj) = u_namespace obj"
  "u_name (strip obj) = u_name obj"
  "u_resourceVersion (strip obj) = u_resourceVersion obj"
  "u_content (strip obj) = u_content obj"
  by (simp_all add: strip_def Let_def)

lemma label_set_stamp [stamp_simps]: "label_set (stamp obj c) = (label_set obj)(ClusterLabel \<mapsto> c)"
  by (simp add: label_set_def stamp_def Let_def)

interpretation marker: cluster_marker stamp strip cluster_of unmarked
proof unfold_locales
  show "cluster_of (stamp x c) = c" for x c
    by (simp add: cluster_of_def stamp_def Let_def)
  show "stamp (stamp x c) d = stamp x d" for x c d
    by (simp add: stamp_def Let_def)
  show "strip (stamp (strip x) c) = strip (stamp x c)" for x c
    by (simp add: stamp_def strip_def Let_def split: option.splits)
  show "unmarked (strip x)" for x
    by (auto simp: unmarked_def strip_def Let_def)
  show "strip x = x" if "unmarked x" for x
    using that by (cases x; cases "u_annotations x"; cases "u_labels x")
      (auto simp: unmarked_def strip_def Let_def fun_upd_idem)
qed

lemmas stamp_laws [simp, stamp_simps] =
  marker.source_mark marker.mark_mark marker.clean_unmark marker.unmark_idem

subsection \<open>Splitting a selector\<close>

text \<open>
  The loop keeps both accumulators selectable and distributes the requirements by their key.
\<close>

lemma split_requirements_correct:
  assumes laws: "labels_laws L sem"
    and "lp_Requirements L remote = (rr, True)" and "lp_Requirements L clusterReqs = (cr, True)"
    and "split_requirements L rs remote clusterReqs = (remote', clusterReqs')"
  shows "\<exists>rr' cr'. lp_Requirements L remote' = (rr', True) \<and>
    lp_Requirements L clusterReqs' = (cr', True) \<and>
    set rr' = set rr \<union> {r \<in> set rs. lp_Key L r \<noteq> ClusterLabel} \<and>
    set cr' = set cr \<union> {r \<in> set rs. lp_Key L r = ClusterLabel}"
  using assms(2-)
proof (induction rs arbitrary: remote clusterReqs rr cr)
  case Nil
  then show ?case by auto
next
  case (Cons r rs)
  show ?case
  proof (cases "lp_Key L r = ClusterLabel")
    case True
    obtain cr1 where cr1: "lp_Requirements L (lp_Add L clusterReqs r) = (cr1, True)"
      and "mset cr1 = add_mset r (mset cr)"
      using labels_Add [OF laws Cons.prems(2)] by metis
    then have "set cr1 = insert r (set cr)" by (metis set_mset_add_mset_insert set_mset_mset)
    with Cons.IH [OF Cons.prems(1) cr1] Cons.prems(3) True show ?thesis by fastforce
  next
    case False
    obtain rr1 where rr1: "lp_Requirements L (lp_Add L remote r) = (rr1, True)"
      and "mset rr1 = add_mset r (mset rr)"
      using labels_Add [OF laws Cons.prems(1)] by metis
    then have "set rr1 = insert r (set rr)" by (metis set_mset_add_mset_insert set_mset_mset)
    with Cons.IH [OF rr1 Cons.prems(2)] Cons.prems(3) False show ?thesis by fastforce
  qed
qed

lemma split_unchanged:
  assumes laws: "labels_laws L sem" and req: "lp_Requirements L sel = (rs, True)"
    and none: "\<And>r. r \<in> set rs \<Longrightarrow> lp_Key L r \<noteq> ClusterLabel"
  shows "lp_Matches L sel (ls(ClusterLabel \<mapsto> c)) = lp_Matches L sel ls"
proof -
  have "sem r (ls(ClusterLabel \<mapsto> c)) = sem r ls" if "r \<in> set rs" for r
    using labels_sem_key [OF laws, of "ls(ClusterLabel \<mapsto> c)" r ls] none [OF that] by simp
  then show ?thesis by (simp add: labels_Matches [OF laws req])
qed

lemma split_selectable:
  assumes laws: "labels_laws L sem" and req: "lp_Requirements L sel = (rs, True)"
    and split: "splitClusterSelector L (Some sel) = (remote, matches)"
  shows "lp_Matches L sel (ls(ClusterLabel \<mapsto> c)) \<longleftrightarrow> remote_matches L remote ls \<and> matches c"
proof (cases "rs = [] \<or> (\<forall>r \<in> set rs. lp_Key L r \<noteq> ClusterLabel)")
  case True
  obtain re cl where parts:
    "split_requirements L rs (lp_NewSelector L) (lp_NewSelector L) = (re, cl)" by fastforce
  from split_requirements_correct [OF laws labels_New [OF laws] labels_New [OF laws] parts]
  obtain cr where cr: "lp_Requirements L cl = (cr, True)"
    and "set cr = {r \<in> set rs. lp_Key L r = ClusterLabel}" by auto
  with True have "set cr = {}" by auto
  then have "lp_Empty L cl" by (simp add: labels_Empty [OF laws cr])
  then have "remote = Some sel" and "matches = (\<lambda>_. True)"
    using split parts by (auto simp: splitClusterSelector_def req split: if_splits)
  moreover have "lp_Matches L sel (ls(ClusterLabel \<mapsto> c)) = lp_Matches L sel ls"
    using True by (intro split_unchanged [OF laws req]) auto
  ultimately show ?thesis by (simp add: remote_matches_def)
next
  case False
  obtain re cl where parts:
    "split_requirements L rs (lp_NewSelector L) (lp_NewSelector L) = (re, cl)" by fastforce
  from split_requirements_correct [OF laws labels_New [OF laws] labels_New [OF laws] parts]
  obtain rr cr where rr: "lp_Requirements L re = (rr, True)"
    and cr: "lp_Requirements L cl = (cr, True)"
    and sets: "set rr = {r \<in> set rs. lp_Key L r \<noteq> ClusterLabel}"
      "set cr = {r \<in> set rs. lp_Key L r = ClusterLabel}" by auto
  have "\<not> lp_Empty L cl" using False sets by (auto simp: labels_Empty [OF laws cr])
  then have res: "remote = Some re" "matches = (\<lambda>c. lp_Matches L cl [ClusterLabel \<mapsto> c])"
    using split parts False by (auto simp: splitClusterSelector_def req labels_Empty [OF laws req])
  have keep: "sem r (ls(ClusterLabel \<mapsto> c)) = sem r ls" if "r \<in> set rr" for r
    using labels_sem_key [OF laws, of "ls(ClusterLabel \<mapsto> c)" r ls] that sets(1) by simp
  have only: "sem r (ls(ClusterLabel \<mapsto> c)) = sem r [ClusterLabel \<mapsto> c]" if "r \<in> set cr" for r
    using labels_sem_key [OF laws, of "ls(ClusterLabel \<mapsto> c)" r "[ClusterLabel \<mapsto> c]"] that sets(2)
    by simp
  have "set rs = set rr \<union> set cr" using sets by blast
  then show ?thesis
    using keep only res
    by (auto simp: remote_matches_def labels_Matches [OF laws req] labels_Matches [OF laws rr]
        labels_Matches [OF laws cr])
qed

section \<open>Equality selectors\<close>

text \<open>
  A labels package at which the theorems about selectors are instantiated: selectors are
  conjunctions of equalities.
\<close>

definition eq_labels :: "((string \<times> string) list, string \<times> string) labels_pkg" where
  "eq_labels =
     \<lparr>lp_NewSelector = [], lp_Add = (\<lambda>s r. s @ [r]), lp_Empty = (\<lambda>s. s = []),
      lp_Requirements = (\<lambda>s. (s, True)), lp_Matches = (\<lambda>s ls. \<forall>(k, v) \<in> set s. ls k = Some v),
      lp_String = (\<lambda>s. strings_Join (map (\<lambda>(k, v). k @ ''='' @ v) s) '',''), lp_Key = fst\<rparr>"

definition eq_sem :: "string \<times> string \<Rightarrow> string_map \<Rightarrow> bool" where
  "eq_sem r ls = (ls (fst r) = Some (snd r))"

lemma eq_labels_laws: "labels_laws eq_labels eq_sem"
  by (simp add: labels_laws_def eq_labels_def eq_sem_def case_prod_beta)

section \<open>Properties\<close>

text \<open>
  C30. Splitting a selector loses nothing: an object read from cluster \<open>c\<close> matches the client's
  selector with its virtual label in place exactly when the member cluster matches it against the
  remote part and \<open>c\<close> is one of the selected clusters.
\<close>

theorem split_selector_correct:
  assumes "labels_laws L sem" and "lp_Requirements L sel = (rs, True)"
    and "splitClusterSelector L (Some sel) = (remote, matches)"
  shows "lp_Matches L sel (label_set (stamp obj c)) \<longleftrightarrow> remote_matches L remote (label_set obj) \<and> matches c"
  unfolding label_set_stamp by (rule split_selectable [OF assms])

theorem split_selector_correct_witness:
  "lp_Matches eq_labels [(''app'', ''web''), (ClusterLabel, ''east'')]
     (label_set (stamp (empty_unstructured\<lparr>u_labels := Some [''app'' \<mapsto> ''web'']\<rparr>) ''east''))"
proof -
  have req: "lp_Requirements eq_labels [(''app'', ''web''), (ClusterLabel, ''east'')] =
      ([(''app'', ''web''), (ClusterLabel, ''east'')], True)" by (simp add: eq_labels_def)
  have split: "splitClusterSelector eq_labels (Some [(''app'', ''web''), (ClusterLabel, ''east'')]) =
      (Some [(''app'', ''web'')], \<lambda>c. c = ''east'')"
    by (simp add: splitClusterSelector_def eq_labels_def ClusterLabel_def)
  show ?thesis
    unfolding split_selector_correct [OF eq_labels_laws req split]
    by (simp add: remote_matches_def eq_labels_def label_set_def)
qed

text \<open>
  Reading an object and writing it back is lossless: what \<open>strip\<close> sends to the member is the
  object the member had, except that a missing annotation or label map has become an empty one. The
  marks do not accumulate, and none of them ever reaches a member.
\<close>

theorem strip_stamp_round_trip:
  assumes "unmarked obj"
  shows "strip (stamp obj c) =
      obj\<lparr>u_annotations := Some (case u_annotations obj of None \<Rightarrow> Map.empty | Some m \<Rightarrow> m),
          u_labels := Some (label_set obj)\<rparr> \<and>
    strip (stamp (strip (stamp obj c)) d) = strip (stamp obj c) \<and> unmarked (strip (stamp obj c))"
proof -
  have "strip (stamp obj c) =
      obj\<lparr>u_annotations := Some (case u_annotations obj of None \<Rightarrow> Map.empty | Some m \<Rightarrow> m),
          u_labels := Some (label_set obj)\<rparr>" for c
    using assms
    by (auto simp: strip_def stamp_def Let_def unmarked_def label_set_def fun_upd_idem split: option.splits)
  moreover have "strip (stamp (strip (stamp obj c)) d) = strip (stamp obj d)"
    by (simp add: marker.unmark_mark)
  moreover have "unmarked (strip (stamp obj c))" by (rule marker.clean_unmark)
  ultimately show ?thesis by metis
qed

theorem strip_stamp_round_trip_witness:
  "strip (stamp (empty_unstructured\<lparr>u_labels := Some [''app'' \<mapsto> ''web'']\<rparr>) ''east'') =
     empty_unstructured\<lparr>u_annotations := Some Map.empty, u_labels := Some [''app'' \<mapsto> ''web'']\<rparr>"
proof -
  have "unmarked (empty_unstructured\<lparr>u_labels := Some [''app'' \<mapsto> ''web'']\<rparr>)"
    by (simp add: unmarked_def empty_unstructured_def ClusterLabel_def)
  from strip_stamp_round_trip [OF this, of "''east''"] show ?thesis
    by (simp add: empty_unstructured_def label_set_def)
qed

end
