(* ===== verification/Fanout.thy ===== *)
theory Fanout
  imports Kube
begin

text \<open>
  The fan-out over member clusters that \<open>locate\<close>, \<open>List\<close> and \<open>DeleteCollection\<close> share: one
  goroutine per cluster in an \<open>errgroup.WithContext\<close>, each appending its results to a slice under
  a mutex. The goroutines are run one after the other in the order in which they finish, which
  the model takes from the order of the task list (no theorem may depend on it). The first error
  is kept, and from then on the group's context is cancelled for the calls that are still made.
\<close>

section \<open>Definitions\<close>

text \<open>The context the goroutines get: cancelled with the parent's or after the first error.\<close>

definition group_ctx :: "ctx \<Rightarrow> go_error option \<Rightarrow> ctx" where
  "group_ctx cx err = cx\<lparr>ctx_cancelled := ctx_cancelled cx \<or> err \<noteq> None\<rparr>"

fun group_go ::
  "(ctx \<Rightarrow> 't \<Rightarrow> ('w, 'a list) io) \<Rightarrow> ctx \<Rightarrow> 't list \<Rightarrow> go_error option \<Rightarrow> 'a list \<Rightarrow> 'w
     \<Rightarrow> (go_error option \<times> 'a list) \<times> 'w" where
  "group_go body cx [] err acc w = ((err, acc), w)"
| "group_go body cx (t # ts) err acc w =
     (case body (group_ctx cx err) t w of
        (Inl e, w') \<Rightarrow> group_go body cx ts (case err of None \<Rightarrow> Some e | Some e0 \<Rightarrow> Some e0) acc w'
      | (Inr xs, w') \<Rightarrow> group_go body cx ts err (acc @ xs) w')"

text \<open>\<open>group.Wait()\<close>: the first error, or what the goroutines have appended.\<close>

definition group_wait ::
  "(ctx \<Rightarrow> 't \<Rightarrow> ('w, 'a list) io) \<Rightarrow> ctx \<Rightarrow> 't list \<Rightarrow> ('w, 'a list) io" where
  "group_wait body cx ts w =
     (case group_go body cx ts None [] w of
        ((Some e, acc), w') \<Rightarrow> (Inl e, w')
      | ((None, acc), w') \<Rightarrow> (Inr acc, w'))"

text \<open>A goroutine body that leaves the world as it is.\<close>

definition reads :: "(ctx \<Rightarrow> 't \<Rightarrow> ('w, 'a list) io) \<Rightarrow> 't list \<Rightarrow> bool" where
  "reads body ts \<longleftrightarrow> (\<forall>t \<in> set ts. \<forall>cx w. snd (body cx t w) = w)"

section \<open>The contract of a fan-out\<close>

text \<open>
  A goroutine body that labels everything it appends with its own task: what comes out of the
  group is then labelled with one of the tasks, whatever the member clusters answer.
\<close>

locale labelled_fan_out =
  fixes body :: "ctx \<Rightarrow> 't \<Rightarrow> ('w, 'a list) io" and label :: "'a \<Rightarrow> 'l" and of_task :: "'t \<Rightarrow> 'l"
  assumes body_labels: "body cx t w = (Inr xs, w') \<Longrightarrow> x \<in> set xs \<Longrightarrow> label x = of_task t"
begin

lemma group_go_labels:
  "group_go body cx ts err acc w = ((err', acc'), w') \<Longrightarrow> x \<in> set acc' \<Longrightarrow>
     x \<in> set acc \<or> label x \<in> of_task ` set ts"
proof (induction ts arbitrary: err acc w)
  case Nil
  then show ?case by simp
next
  case (Cons t ts)
  obtain r w1 where r: "body (group_ctx cx err) t w = (r, w1)" by fastforce
  show ?case
  proof (cases r)
    case (Inl e)
    with r Cons.prems(1) have
      "group_go body cx ts (case err of None \<Rightarrow> Some e | Some e0 \<Rightarrow> Some e0) acc w1 = ((err', acc'), w')"
      by simp
    from Cons.IH [OF this Cons.prems(2)] show ?thesis by auto
  next
    case (Inr xs)
    with r Cons.prems(1) have "group_go body cx ts err (acc @ xs) w1 = ((err', acc'), w')"
      by simp
    from Cons.IH [OF this Cons.prems(2)] r Inr show ?thesis by (auto dest: body_labels)
  qed
qed

lemma group_wait_labels:
  assumes "group_wait body cx ts w = (Inr acc, w')" and "x \<in> set acc"
  shows "label x \<in> of_task ` set ts"
proof -
  from assms(1) obtain err where "group_go body cx ts None [] w = ((err, acc), w')"
    by (auto simp: group_wait_def split: prod.splits option.splits)
  from group_go_labels [OF this assms(2)] show ?thesis by simp
qed

end

section \<open>Lemmas\<close>

lemma group_ctx_None [simp]: "group_ctx cx None = cx"
  by (simp add: group_ctx_def)

lemma group_go_keeps_error:
  "group_go body cx ts (Some e) acc w = ((err, acc'), w') \<Longrightarrow> err = Some e"
  by (induction ts arbitrary: acc w) (auto split: prod.splits sum.splits)

text \<open>
  A group without failing goroutines: every body ran in the parent's context, one after the
  other, and the group returns everything they appended.
\<close>

fun run_all :: "(ctx \<Rightarrow> 't \<Rightarrow> ('w, 'a list) io) \<Rightarrow> ctx \<Rightarrow> 't list \<Rightarrow> ('w, 'a list) io" where
  "run_all body cx [] w = (Inr [], w)"
| "run_all body cx (t # ts) w =
     (case body cx t w of
        (Inl e, w') \<Rightarrow> (Inl e, w')
      | (Inr xs, w') \<Rightarrow> (case run_all body cx ts w' of
          (Inl e, w'') \<Rightarrow> (Inl e, w'') | (Inr ys, w'') \<Rightarrow> (Inr (xs @ ys), w'')))"

lemma run_all_each:
  assumes "run_all body cx ts w = (Inr ys, w')" and "t \<in> set ts"
  shows "\<exists>w1 xs w2. body cx t w1 = (Inr xs, w2) \<and> set xs \<subseteq> set ys"
  using assms
proof (induction ts arbitrary: w ys)
  case Nil
  then show ?case by simp
next
  case (Cons t' ts)
  then obtain xs w1 ys1 where hd: "body cx t' w = (Inr xs, w1)"
    and rest: "run_all body cx ts w1 = (Inr ys1, w')" and ys: "ys = xs @ ys1"
    by (auto split: prod.splits sum.splits)
  show ?case
  proof (cases "t = t'")
    case True
    with hd ys show ?thesis by auto
  next
    case False
    with Cons.prems(2) Cons.IH [OF rest] ys show ?thesis by fastforce
  qed
qed

lemma group_go_run_all_Inr:
  "run_all body cx ts w = (Inr ys, w') \<Longrightarrow>
     group_go body cx ts None acc w = ((None, acc @ ys), w')"
proof (induction ts arbitrary: w acc ys)
  case Nil
  then show ?case by simp
next
  case (Cons t ts)
  then obtain xs w1 ys1 where "body cx t w = (Inr xs, w1)"
    and rest: "run_all body cx ts w1 = (Inr ys1, w')" and "ys = xs @ ys1"
    by (auto split: prod.splits sum.splits)
  with Cons.IH [OF rest] show ?case by simp
qed

lemma group_go_run_all_Inl:
  "run_all body cx ts w = (Inl e, w') \<Longrightarrow>
     \<exists>acc' w''. group_go body cx ts None acc w = ((Some e, acc'), w'')"
proof (induction ts arbitrary: w acc)
  case Nil
  then show ?case by simp
next
  case (Cons t ts)
  show ?case
  proof (cases "body cx t w")
    case (Pair r w1)
    show ?thesis
    proof (cases r)
      case (Inl e1)
      with Pair Cons.prems have "e1 = e" by simp
      obtain err acc2 w2 where "group_go body cx ts (Some e1) acc w1 = ((err, acc2), w2)"
        by (metis surj_pair)
      with group_go_keeps_error [OF this] Pair Inl \<open>e1 = e\<close> show ?thesis by simp
    next
      case (Inr xs)
      with Pair Cons.prems have "run_all body cx ts w1 = (Inl e, w')"
        by (auto split: prod.splits sum.splits)
      from Cons.IH [OF this, of "acc @ xs"] Pair Inr show ?thesis by simp
    qed
  qed
qed

lemma group_wait_run_all:
  "fst (group_wait body cx ts w) = fst (run_all body cx ts w)"
proof (cases "run_all body cx ts w")
  case (Pair r w')
  show ?thesis
  proof (cases r)
    case (Inl e)
    with group_go_run_all_Inl [of body cx ts w e w' "[]"] Pair show ?thesis
      by (auto simp: group_wait_def)
  next
    case (Inr ys)
    with group_go_run_all_Inr [of body cx ts w ys w' "[]"] Pair show ?thesis
      by (simp add: group_wait_def)
  qed
qed

lemma group_wait_success:
  "run_all body cx ts w = (Inr ys, w') \<Longrightarrow> group_wait body cx ts w = (Inr ys, w')"
  by (simp add: group_wait_def group_go_run_all_Inr)

lemma group_wait_success_iff:
  "group_wait body cx ts w = (Inr ys, w') \<longleftrightarrow> run_all body cx ts w = (Inr ys, w')"
proof
  assume gw: "group_wait body cx ts w = (Inr ys, w')"
  obtain w'' where "run_all body cx ts w = (Inr ys, w'')"
    using group_wait_run_all [of body cx ts w] gw by (metis fst_conv surj_pair)
  with group_wait_success [OF this] gw show "run_all body cx ts w = (Inr ys, w')" by simp
qed (rule group_wait_success)

lemma reads_tl: "reads body (t # ts) \<Longrightarrow> reads body ts"
  by (simp add: reads_def)

lemma group_go_reads:
  "reads body ts \<Longrightarrow> snd (group_go body cx ts err acc w) = w"
proof (induction ts arbitrary: err acc w)
  case Nil
  then show ?case by simp
next
  case (Cons t ts)
  obtain r w1 where r: "body (group_ctx cx err) t w = (r, w1)" by fastforce
  moreover have "snd (body (group_ctx cx err) t w) = w" using Cons.prems by (simp add: reads_def)
  ultimately have "w1 = w" by simp
  with r Cons.IH [OF reads_tl [OF Cons.prems]] show ?case by (simp split: sum.splits)
qed

lemma group_wait_reads: "reads body ts \<Longrightarrow> snd (group_wait body cx ts w) = w"
  using group_go_reads [of body ts cx None "[]" w]
  by (auto simp: group_wait_def split: prod.splits option.splits)

text \<open>
  For bodies that only read: the group succeeds exactly when every body succeeds on the unchanged
  world, and fails with the error of one of the tasks.
\<close>

lemma run_all_reads:
  "reads body ts \<Longrightarrow>
     fst (run_all body cx ts w) =
       (case find (\<lambda>t. isl (fst (body cx t w))) ts of
          Some t \<Rightarrow> Inl (projl (fst (body cx t w)))
        | None \<Rightarrow> Inr (concat (map (\<lambda>t. projr (fst (body cx t w))) ts)))"
proof (induction ts)
  case Nil
  then show ?case by simp
next
  case (Cons t ts)
  have t: "snd (body cx t w) = w" using Cons.prems by (simp add: reads_def)
  show ?case
  proof (cases "body cx t w")
    case (Pair r w1)
    with t have "w1 = w" by simp
    with Pair Cons.IH [OF reads_tl [OF Cons.prems]] show ?thesis
      by (cases r) (auto split: option.splits prod.splits sum.splits)
  qed
qed

end
