(* ===== verification/Storage.thy ===== *)
theory Storage
  imports Metadata Fanout
begin

text \<open>
  \<open>pkg/apiserver/storage/storage.go\<close>: the options of the proxy storage of one resource, their
  validation, and the small accessors the API server asks a storage for.
\<close>

record ('w, 'h) storage_options =
  so_GVR :: group_version_resource
  so_Kind :: group_version_kind
  so_Namespaced :: bool
  so_Singular :: string
  so_Clusters :: "(string \<times> ('w, 'h) dynamic_client) list"
  so_Done :: "nat option"

definition storage_validate :: "('w, 'h) storage_options \<Rightarrow> go_error option" where
  "storage_validate opts =
     (if gvr_resource (so_GVR opts) = '''' then Some (New ''GVR is required'')
      else if gvk_kind (so_Kind opts) = '''' then Some (New ''Kind is required'')
      else if length (so_Clusters opts) = 0 then Some (New ''at least one cluster is required'')
      else None)"

text \<open>The table convertor is identified by the argument it is built from.\<close>

record ('w, 'h) storage =
  st_opts :: "('w, 'h) storage_options"
  st_table :: group_resource

definition storage_New :: "('w, 'h) storage_options \<Rightarrow> ('w, 'h) storage result" where
  "storage_New opts =
     (case storage_validate opts of
        Some err \<Rightarrow> Inl (Wrapf ''invalid storage options: %w'' [] err)
      | None \<Rightarrow> Inr \<lparr>st_opts = opts, st_table = GVR_GroupResource (so_GVR opts)\<rparr>)"

text \<open>The methods \<open>New\<close>, \<open>NewList\<close>, \<open>NamespaceScoped\<close>, \<open>Kind\<close> and \<open>GetSingularName\<close> of a storage.\<close>

definition Storage_New :: "('w, 'h) storage \<Rightarrow> runtime_object" where
  "Storage_New s = Unstructured (empty_unstructured\<lparr>u_gvk := so_Kind (st_opts s)\<rparr>)"

definition Storage_NewList :: "('w, 'h) storage \<Rightarrow> unstructured_list" where
  "Storage_NewList s =
     empty_list\<lparr>l_gvk :=
       WithKind (GVK_GroupVersion (so_Kind (st_opts s))) (gvk_kind (so_Kind (st_opts s)) @ ''List'')\<rparr>"

definition Storage_NamespaceScoped :: "('w, 'h) storage \<Rightarrow> bool" where
  "Storage_NamespaceScoped s = so_Namespaced (st_opts s)"

definition Storage_Kind :: "('w, 'h) storage \<Rightarrow> string" where
  "Storage_Kind s = gvk_kind (so_Kind (st_opts s))"

definition Storage_GetSingularName :: "('w, 'h) storage \<Rightarrow> string" where
  "Storage_GetSingularName s = so_Singular (st_opts s)"

definition Storage_client ::
  "('w, 'h) storage \<Rightarrow> ('w, 'h) dynamic_client \<Rightarrow> string \<Rightarrow> ('w, 'h) resource_interface" where
  "Storage_client s cluster namespace =
     (if so_Namespaced (st_opts s) \<and> namespace \<noteq> ''''
      then cluster (so_GVR (st_opts s)) (Some namespace)
      else cluster (so_GVR (st_opts s)) None)"

abbreviation clusters :: "('w, 'h) storage \<Rightarrow> (string \<times> ('w, 'h) dynamic_client) list" where
  "clusters s \<equiv> so_Clusters (st_opts s)"

section \<open>Lemmas\<close>

lemma storage_New_Inr:
  "storage_New opts = Inr s \<longleftrightarrow>
     storage_validate opts = None \<and> s = \<lparr>st_opts = opts, st_table = GVR_GroupResource (so_GVR opts)\<rparr>"
  by (auto simp: storage_New_def split: option.splits)

lemma storage_validate_None:
  "storage_validate opts = None \<longleftrightarrow>
     gvr_resource (so_GVR opts) \<noteq> '''' \<and> gvk_kind (so_Kind opts) \<noteq> '''' \<and> so_Clusters opts \<noteq> []"
  by (simp add: storage_validate_def)

lemma Storage_NewList_fields [simp]:
  "l_items (Storage_NewList s) = []"
  "l_resourceVersion (Storage_NewList s) = ''''"
  "l_continue (Storage_NewList s) = ''''"
  by (simp_all add: Storage_NewList_def empty_list_def)

end
