(* ===== verification/Concrete.thy ===== *)
theory Concrete
  imports Storage
begin

text \<open>
  A concrete environment at which the theorems about the storage are instantiated: member
  clusters that keep their objects in
  memory. Nothing of the model refers to it; only the witnesses do.
\<close>

section \<open>Clusters in memory\<close>

type_synonym mem = "(string \<times> unstructured list) list"

definition mem_objects :: "mem \<Rightarrow> string \<Rightarrow> unstructured list" where
  "mem_objects m c = (case map_of m c of None \<Rightarrow> [] | Some os \<Rightarrow> os)"

definition in_scope :: "string option \<Rightarrow> unstructured \<Rightarrow> bool" where
  "in_scope ns obj = (case ns of None \<Rightarrow> True | Some n \<Rightarrow> u_namespace obj = n)"

text \<open>A member evaluates selectors with at most one term.\<close>

definition mem_selects :: "string \<Rightarrow> unstructured \<Rightarrow> bool" where
  "mem_selects sel obj =
     (sel = '''' \<or> (case strings_Cut sel CHR ''='' of (k, v, found) \<Rightarrow> label_set obj k = Some v))"

definition mem_page :: "int \<Rightarrow> unstructured list \<Rightarrow> unstructured_list" where
  "mem_page limit objs =
     (if 0 < limit \<and> nat limit < length objs
      then empty_list\<lparr>l_resourceVersion := ''7'', l_continue := ''more'', l_items := take (nat limit) objs\<rparr>
      else empty_list\<lparr>l_resourceVersion := ''7'', l_items := objs\<rparr>)"

definition context_canceled :: go_error where
  "context_canceled = New ''context canceled''"

definition mem_client :: "string \<Rightarrow> (mem, nat) dynamic_client" where
  "mem_client c gvr ns =
     \<lparr>ri_Get = (\<lambda>cx name opts m.
        if ctx_cancelled cx then (Inl context_canceled, m)
        else (case find (\<lambda>obj. in_scope ns obj \<and> u_name obj = name) (mem_objects m c) of
                Some obj \<Rightarrow> (Inr obj, m)
              | None \<Rightarrow> (Inl (Status (NotFound (GVR_GroupResource gvr) name)), m))),
      ri_List = (\<lambda>cx opts m.
        if ctx_cancelled cx then (Inl context_canceled, m)
        else (Inr (mem_page (lo_limit opts)
                (filter (\<lambda>obj. in_scope ns obj \<and> mem_selects (lo_labelSelector opts) obj)
                   (mem_objects m c))), m)),
      ri_Create = (\<lambda>cx obj opts m. (Inr obj, AList.update c (mem_objects m c @ [obj]) m)),
      ri_Update = (\<lambda>cx obj opts m.
        (Inr obj, AList.update c (map (\<lambda>o'. if in_scope ns o' \<and> u_name o' = u_name obj then obj else o')
           (mem_objects m c)) m)),
      ri_UpdateStatus = (\<lambda>cx obj opts m.
        (Inr obj, AList.update c (map (\<lambda>o'. if in_scope ns o' \<and> u_name o' = u_name obj
           then o'\<lparr>u_content := u_content obj\<rparr> else o') (mem_objects m c)) m)),
      ri_Delete = (\<lambda>cx name opts m.
        (Inr (), AList.update c (filter (\<lambda>o'. \<not> (in_scope ns o' \<and> u_name o' = name))
           (mem_objects m c)) m)),
      ri_DeleteCollection = (\<lambda>cx dopts opts m.
        (Inr (), AList.update c (filter (\<lambda>o'. \<not> (in_scope ns o' \<and> mem_selects (lo_labelSelector opts) o'))
           (mem_objects m c)) m)),
      ri_Watch = (\<lambda>cx opts m. (Inr 0, m)),
      ri_Stop = (\<lambda>h m. m)\<rparr>"

text \<open>A member cluster that cannot be reached.\<close>

definition unreachable :: go_error where
  "unreachable = New ''connection refused''"

definition down_client :: "('w, nat) dynamic_client" where
  "down_client gvr ns =
     \<lparr>ri_Get = (\<lambda>cx name opts m. (Inl unreachable, m)), ri_List = (\<lambda>cx opts m. (Inl unreachable, m)),
      ri_Create = (\<lambda>cx obj opts m. (Inl unreachable, m)), ri_Update = (\<lambda>cx obj opts m. (Inl unreachable, m)),
      ri_UpdateStatus = (\<lambda>cx obj opts m. (Inl unreachable, m)),
      ri_Delete = (\<lambda>cx name opts m. (Inl unreachable, m)),
      ri_DeleteCollection = (\<lambda>cx dopts opts m. (Inl unreachable, m)),
      ri_Watch = (\<lambda>cx opts m. (Inl unreachable, m)), ri_Stop = (\<lambda>h m. m)\<rparr>"

definition deployments :: group_version_resource where
  "deployments = \<lparr>gvr_group = ''apps'', gvr_version = ''v1'', gvr_resource = ''deployments''\<rparr>"

definition Deployment_kind :: group_version_kind where
  "Deployment_kind = \<lparr>gvk_group = ''apps'', gvk_version = ''v1'', gvk_kind = ''Deployment''\<rparr>"

definition demo_object :: "string \<Rightarrow> unstructured" where
  "demo_object name =
     empty_unstructured\<lparr>u_gvk := Deployment_kind, u_namespace := ''default'', u_name := name\<rparr>"

definition demo_ctx :: ctx where
  "demo_ctx = \<lparr>ctx_namespace = ''default'', ctx_cancelled = False\<rparr>"

definition web_east :: mem where
  "web_east = [(''east'', [demo_object ''web'']), (''west'', [])]"

definition web_both :: mem where
  "web_both = [(''east'', [demo_object ''web'', demo_object ''api'']), (''west'', [demo_object ''web''])]"

definition demo_storage :: "(string \<times> ('w, nat) dynamic_client) list \<Rightarrow> ('w, nat) storage" where
  "demo_storage cs =
     \<lparr>st_opts = \<lparr>so_GVR = deployments, so_Kind = Deployment_kind, so_Namespaced = True,
        so_Singular = ''deployment'', so_Clusters = cs, so_Done = None\<rparr>,
      st_table = GVR_GroupResource deployments\<rparr>"

definition east_west :: "(string \<times> (mem, nat) dynamic_client) list" where
  "east_west = [(''east'', mem_client ''east''), (''west'', mem_client ''west'')]"

section \<open>Lemmas\<close>

lemmas demo_defs = mem_client_def down_client_def mem_objects_def in_scope_def mem_selects_def
  mem_page_def context_canceled_def unreachable_def deployments_def Deployment_kind_def
  demo_object_def demo_ctx_def demo_storage_def east_west_def Storage_client_def web_east_def web_both_def empty_unstructured_def empty_list_def

lemma mem_page_0 [simp]: "l_items (mem_page 0 objs) = objs"
  by (simp add: mem_page_def)

lemma demo_mem_objects [simp]:
  "mem_objects web_both ''east'' = [demo_object ''web'', demo_object ''api'']"
  "mem_objects web_both ''west'' = [demo_object ''web'']"
  "mem_objects web_east ''east'' = [demo_object ''web'']"
  "mem_objects web_east ''west'' = []"
  by (simp_all add: mem_objects_def web_both_def web_east_def)

end
