(* ===== verification/Reader.thy ===== *)
theory Reader
  imports Concrete "HOL-Library.Product_Lexorder"
begin

text \<open>
  \<open>pkg/apiserver/storage/reader.go\<close>: finding an object in exactly one of the member clusters
  (\<open>locate\<close>), reading it (\<open>Get\<close>) and listing across clusters (\<open>List\<close>).
\<close>

section \<open>Definitions\<close>

text \<open>The goroutine of \<open>locate\<close> for one cluster; a hit is a pair of the cluster and the object.\<close>

definition locate_probe ::
  "('w, 'h) storage \<Rightarrow> string \<Rightarrow> string \<Rightarrow> get_options \<Rightarrow> ctx
     \<Rightarrow> string \<times> ('w, 'h) dynamic_client \<Rightarrow> ('w, (string \<times> unstructured) list) io" where
  "locate_probe s namespace name options groupCtx t w =
     (case t of (cluster, cl) \<Rightarrow>
       (case ri_Get (Storage_client s cl namespace) groupCtx name options w of
          (Inl err, w') \<Rightarrow>
            if IsNotFound err then (Inr [], w')
            else (Inl (Wrapf ''getting %s from cluster %q: %w'' [name, cluster] err), w')
        | (Inr obj, w') \<Rightarrow> (Inr [(cluster, obj)], w')))"

definition default_get_options :: get_options where
  "default_get_options = \<lparr>go_resourceVersion = ''''\<rparr>"

text \<open>
  The \<open>switch\<close> over the hits at the end of \<open>locate\<close>.
\<close>

definition locate_hits ::
  "('w, 'h) storage \<Rightarrow> string \<Rightarrow> (string \<times> unstructured) list \<Rightarrow> (string \<times> unstructured) result" where
  "locate_hits s name hits =
     (case hits of
        [] \<Rightarrow> Inl (Status (NotFound (GVR_GroupResource (so_GVR (st_opts s))) name))
      | [h] \<Rightarrow> Inr h
      | _ \<Rightarrow> Inl (Status (Conflict (GVR_GroupResource (so_GVR (st_opts s))) name
               (New (sprintf ''found in multiple clusters: %s''
                     [strings_Join (sort_Strings (map fst hits)) '', ''])))))"

definition locate ::
  "('w, 'h) storage \<Rightarrow> ctx \<Rightarrow> string \<Rightarrow> get_options option \<Rightarrow> string
     \<Rightarrow> ('w, string \<times> unstructured) io" where
  "locate s cx name options cluster w =
     (let namespace = ctx_namespace cx;
          opts = (case options of None \<Rightarrow> default_get_options | Some o' \<Rightarrow> o')
      in if cluster \<noteq> '''' then
           (case map_of (clusters s) cluster of
              None \<Rightarrow> (Inl (Status (BadRequest
                (sprintf ''cluster %q is not part of this aggregated API'' [cluster]))), w)
            | Some cl \<Rightarrow>
                (case ri_Get (Storage_client s cl namespace) cx name opts w of
                   (Inl err, w') \<Rightarrow> (Inl err, w')
                 | (Inr obj, w') \<Rightarrow> (Inr (cluster, obj), w')))
         else
           (case group_wait (locate_probe s namespace name opts) cx (clusters s) w of
              (Inl err, w') \<Rightarrow> (Inl (Status (InternalError err)), w')
            | (Inr hits, w') \<Rightarrow> (locate_hits s name hits, w')))"

definition Storage_Get ::
  "('w, 'h) storage \<Rightarrow> ctx \<Rightarrow> string \<Rightarrow> get_options option \<Rightarrow> ('w, unstructured) io" where
  "Storage_Get s cx name options w =
     (case locate s cx name options '''' w of
        (Inl err, w') \<Rightarrow> (Inl err, w')
      | (Inr (cluster, obj), w') \<Rightarrow> (Inr (stamp obj cluster), w'))"

definition fieldSelectorString :: "'sel internal_list_options \<Rightarrow> string" where
  "fieldSelectorString options = (case ilo_fieldSelector options of None \<Rightarrow> '''' | Some f \<Rightarrow> f)"

definition remote_selector_string :: "('sel, 'req) labels_pkg \<Rightarrow> 'sel option \<Rightarrow> string" where
  "remote_selector_string L remote = (case remote of None \<Rightarrow> '''' | Some sel \<Rightarrow> lp_String L sel)"

text \<open>The goroutine of \<open>List\<close> for one cluster.\<close>

definition list_fetch ::
  "('w, 'h) storage \<Rightarrow> string \<Rightarrow> list_options \<Rightarrow> ctx
     \<Rightarrow> string \<times> ('w, 'h) dynamic_client \<Rightarrow> ('w, unstructured list) io" where
  "list_fetch s namespace listOptions groupCtx t w =
     (case t of (cluster, cl) \<Rightarrow>
       (case ri_List (Storage_client s cl namespace) groupCtx listOptions w of
          (Inl err, w') \<Rightarrow> (Inl (Wrapf ''listing from cluster %q: %w'' [cluster] err), w')
        | (Inr list, w') \<Rightarrow> (Inr (map (\<lambda>item. stamp item cluster) (l_items list)), w')))"

text \<open>The comparison \<open>List\<close> sorts with: namespace, then name, then cluster annotation.\<close>

definition item_less :: "unstructured \<Rightarrow> unstructured \<Rightarrow> bool" where
  "item_less a b =
     (if u_namespace a \<noteq> u_namespace b then u_namespace a < u_namespace b
      else if u_name a \<noteq> u_name b then u_name a < u_name b
      else cluster_of a < cluster_of b)"

definition list_remote_options ::
  "('sel, 'req) labels_pkg \<Rightarrow> 'sel internal_list_options \<Rightarrow> 'sel option \<Rightarrow> list_options" where
  "list_remote_options L options remote =
     no_list_options\<lparr>lo_fieldSelector := fieldSelectorString options, lo_limit := ilo_limit options,
       lo_labelSelector := remote_selector_string L remote\<rparr>"

definition Storage_List ::
  "('sel, 'req) labels_pkg \<Rightarrow> ('w, 'h) storage \<Rightarrow> ctx \<Rightarrow> 'sel internal_list_options
     \<Rightarrow> ('w, unstructured_list) io" where
  "Storage_List L s cx options w =
     (case splitClusterSelector L (ilo_labelSelector options) of (remote, matches) \<Rightarrow>
       (case group_wait (list_fetch s (ctx_namespace cx) (list_remote_options L options remote)) cx
               (filter (\<lambda>(cluster, cl). matches cluster) (clusters s)) w of
          (Inl err, w') \<Rightarrow> (Inl (Status (InternalError err)), w')
        | (Inr items, w') \<Rightarrow>
            (Inr ((Storage_NewList s)\<lparr>l_items := sort_Slice item_less items\<rparr>), w')))"

text \<open>\<open>ConvertToTable\<close> hands over to the convertor the storage was built with.\<close>

definition Storage_ConvertToTable ::
  "(group_resource \<Rightarrow> ctx \<Rightarrow> runtime_object \<Rightarrow> runtime_object \<Rightarrow> 'table result) \<Rightarrow>
   ('w, 'h) storage \<Rightarrow> ctx \<Rightarrow> runtime_object \<Rightarrow> runtime_object \<Rightarrow> 'table result" where
  "Storage_ConvertToTable convert s cx object tableOptions = convert (st_table s) cx object tableOptions"

subsection \<open>What a member cluster answers\<close>

text \<open>The answer of one member cluster to the \<open>Get\<close> of a probe, and whether \<open>Get\<close> and \<open>List\<close> only read.\<close>

definition get_answer ::
  "('w, 'h) storage \<Rightarrow> ctx \<Rightarrow> string \<Rightarrow> get_options \<Rightarrow> 'w \<Rightarrow> ('w, 'h) dynamic_client
     \<Rightarrow> unstructured result" where
  "get_answer s cx name opts w cl =
     fst (ri_Get (Storage_client s cl (ctx_namespace cx)) cx name opts w)"

definition gets_read :: "('w, 'h) storage \<Rightarrow> string \<Rightarrow> bool" where
  "gets_read s namespace \<longleftrightarrow>
     (\<forall>(c, cl) \<in> set (clusters s). \<forall>cx name opts w.
        snd (ri_Get (Storage_client s cl namespace) cx name opts w) = w)"

text \<open>The storage with its clusters visited in another order.\<close>

definition reordered ::
  "('w, 'h) storage \<Rightarrow> (string \<times> ('w, 'h) dynamic_client) list \<Rightarrow> ('w, 'h) storage" where
  "reordered s cs = s\<lparr>st_opts := (st_opts s)\<lparr>so_Clusters := cs\<rparr>\<rparr>"

definition list_answer ::
  "('w, 'h) storage \<Rightarrow> ctx \<Rightarrow> list_options \<Rightarrow> 'w \<Rightarrow> ('w, 'h) dynamic_client
     \<Rightarrow> unstructured_list result" where
  "list_answer s cx opts w cl =
     fst (ri_List (Storage_client s cl (ctx_namespace cx)) cx opts w)"

text \<open>What \<open>List\<close> sends to the member clusters, and to which of them.\<close>

definition list_selection ::
  "('sel, 'req) labels_pkg \<Rightarrow> ('w, 'h) storage \<Rightarrow> 'sel internal_list_options
     \<Rightarrow> list_options \<times> (string \<times> ('w, 'h) dynamic_client) list" where
  "list_selection L s options =
     (case splitClusterSelector L (ilo_labelSelector options) of (remote, matches) \<Rightarrow>
        (list_remote_options L options remote, filter (\<lambda>(cluster, cl). matches cluster) (clusters s)))"

definition item_key :: "unstructured \<Rightarrow> string \<times> string \<times> string" where
  "item_key obj = (u_namespace obj, u_name obj, cluster_of obj)"

definition lists_read :: "('w, 'h) storage \<Rightarrow> string \<Rightarrow> bool" where
  "lists_read s namespace \<longleftrightarrow>
     (\<forall>(c, cl) \<in> set (clusters s). \<forall>cx opts w.
        snd (ri_List (Storage_client s cl namespace) cx opts w) = w)"

definition get_opts :: "get_options option \<Rightarrow> get_options" where
  "get_opts options = (case options of None \<Rightarrow> default_get_options | Some o' \<Rightarrow> o')"

text \<open>The hits of a probe over all clusters, when no cluster fails.\<close>

definition hits_of ::
  "('w, 'h) storage \<Rightarrow> ctx \<Rightarrow> string \<Rightarrow> get_options \<Rightarrow> 'w \<Rightarrow> (string \<times> unstructured) list" where
  "hits_of s cx name opts w =
     concat (map (\<lambda>(c, cl). case get_answer s cx name opts w cl of Inr obj \<Rightarrow> [(c, obj)] | Inl e \<Rightarrow> [])
       (clusters s))"

definition probe_fails :: "unstructured result \<Rightarrow> bool" where
  "probe_fails r = (case r of Inl e \<Rightarrow> \<not> IsNotFound e | Inr obj \<Rightarrow> False)"

definition all_answered ::
  "('w, 'h) storage \<Rightarrow> ctx \<Rightarrow> string \<Rightarrow> get_options \<Rightarrow> 'w \<Rightarrow> bool" where
  "all_answered s cx name opts w \<longleftrightarrow>
     (\<forall>c cl. (c, cl) \<in> set (clusters s) \<longrightarrow> \<not> probe_fails (get_answer s cx name opts w cl))"

section \<open>Lemmas\<close>

lemma locate_probe_reads:
  assumes "gets_read s namespace"
  shows "reads (locate_probe s namespace name opts) (clusters s)"
  unfolding reads_def
proof (intro ballI allI)
  fix t cx w
  assume mem: "t \<in> set (clusters s)"
  obtain c cl where t: "t = (c, cl)" by fastforce
  with mem assms have "snd (ri_Get (Storage_client s cl namespace) cx name opts w) = w"
    by (auto simp: gets_read_def)
  then show "snd (locate_probe s namespace name opts cx t w) = w"
    by (auto simp: locate_probe_def t split: prod.splits sum.splits)
qed

lemma locate_probe_result:
  "fst (locate_probe s (ctx_namespace cx) name opts cx (c, cl) w) =
     (if probe_fails (get_answer s cx name opts w cl)
      then Inl (Wrapf ''getting %s from cluster %q: %w'' [name, c] (projl (get_answer s cx name opts w cl)))
      else Inr (case get_answer s cx name opts w cl of Inr obj \<Rightarrow> [(c, obj)] | Inl e \<Rightarrow> []))"
  by (auto simp: locate_probe_def get_answer_def probe_fails_def split: prod.splits sum.splits)

lemma locate_unpinned:
  assumes "gets_read s (ctx_namespace cx)"
  shows "locate s cx name options '''' w =
    ((case find (\<lambda>(c, cl). probe_fails (get_answer s cx name (get_opts options) w cl)) (clusters s) of
        Some (c, cl) \<Rightarrow> Inl (Status (InternalError
          (Wrapf ''getting %s from cluster %q: %w'' [name, c]
             (projl (get_answer s cx name (get_opts options) w cl)))))
      | None \<Rightarrow> locate_hits s name (hits_of s cx name (get_opts options) w)), w)"
proof -
  let ?opts = "get_opts options"
  let ?body = "locate_probe s (ctx_namespace cx) name ?opts"
  let ?fails = "\<lambda>(c, cl). probe_fails (get_answer s cx name ?opts w cl)"
  have reads: "reads ?body (clusters s)" by (rule locate_probe_reads [OF assms])
  have isl: "isl (fst (?body cx t w)) = ?fails t" for t
    by (cases t) (simp add: locate_probe_result)
  have ok: "projr (fst (?body cx t w)) =
      (case t of (c, cl) \<Rightarrow> case get_answer s cx name ?opts w cl of Inr obj \<Rightarrow> [(c, obj)] | Inl e \<Rightarrow> [])"
    if "\<not> ?fails t" for t
    using that by (cases t) (simp add: locate_probe_result)
  have "fst (group_wait ?body cx (clusters s) w) =
      (case find ?fails (clusters s) of
         Some (c, cl) \<Rightarrow> Inl (Wrapf ''getting %s from cluster %q: %w'' [name, c]
             (projl (get_answer s cx name ?opts w cl)))
       | None \<Rightarrow> Inr (hits_of s cx name ?opts w))"
  proof (cases "find ?fails (clusters s)")
    case None
    then have "\<forall>t \<in> set (clusters s). \<not> ?fails t" by (auto simp: find_None_iff)
    then have "concat (map (\<lambda>t. projr (fst (?body cx t w))) (clusters s)) = hits_of s cx name ?opts w"
      unfolding hits_of_def using ok by (intro arg_cong [where f = concat] map_cong) auto
    with None show ?thesis
      by (simp add: group_wait_run_all run_all_reads [OF reads] isl)
  next
    case (Some t)
    obtain c cl where t: "t = (c, cl)" by (cases t)
    from Some have "?fails t" by (auto simp: find_Some_iff)
    with Some t show ?thesis
      by (simp add: group_wait_run_all run_all_reads [OF reads] isl locate_probe_result)
  qed
  moreover have "snd (group_wait ?body cx (clusters s) w) = w" by (rule group_wait_reads [OF reads])
  ultimately show ?thesis
    by (cases "group_wait ?body cx (clusters s) w")
      (auto simp: locate_def get_opts_def split: option.splits prod.splits sum.splits)
qed

lemma set_hits_of:
  "(c, obj) \<in> set (hits_of s cx name opts w) \<longleftrightarrow>
     (\<exists>cl. (c, cl) \<in> set (clusters s) \<and> get_answer s cx name opts w cl = Inr obj)"
  by (force simp: hits_of_def split: sum.splits)

lemma hits_of_clusters:
  "map fst (hits_of s cx name opts w) =
     map fst (filter (\<lambda>(c, cl). \<not> isl (get_answer s cx name opts w cl)) (clusters s))"
proof -
  have "map fst (concat (map (\<lambda>(c, cl). case f cl of Inr obj \<Rightarrow> [(c, obj)] | Inl e \<Rightarrow> []) xs)) =
      map fst (filter (\<lambda>(c, cl). \<not> isl (f cl)) xs)"
    for f :: "'x \<Rightarrow> 'e + 'y" and xs :: "('z \<times> 'x) list"
    by (induction xs) (auto split: sum.splits)
  then show ?thesis by (simp add: hits_of_def)
qed

lemma distinct_hits_of: "wf_map (clusters s) \<Longrightarrow> distinct (map fst (hits_of s cx name opts w))"
  by (simp add: hits_of_clusters distinct_map_filter)

text \<open>No cluster fails, or the probe reports one of the failures.\<close>

lemma locate_no_failure:
  assumes "gets_read s (ctx_namespace cx)"
    and "\<And>c cl. (c, cl) \<in> set (clusters s) \<Longrightarrow>
      \<not> probe_fails (get_answer s cx name (get_opts options) w cl)"
  shows "locate s cx name options '''' w =
    (locate_hits s name (hits_of s cx name (get_opts options) w), w)"
proof -
  have "find (\<lambda>(c, cl). probe_fails (get_answer s cx name (get_opts options) w cl)) (clusters s) = None"
    using assms(2) by (auto simp: find_None_iff)
  then show ?thesis by (simp add: locate_unpinned [OF assms(1)])
qed

lemma locate_failure:
  assumes "gets_read s (ctx_namespace cx)" and "(c, cl) \<in> set (clusters s)"
    and "probe_fails (get_answer s cx name (get_opts options) w cl)"
  shows "\<exists>e. locate s cx name options '''' w = (Inl (Status (InternalError e)), w)"
proof -
  let ?fails = "\<lambda>(c, cl). probe_fails (get_answer s cx name (get_opts options) w cl)"
  have "find ?fails (clusters s) \<noteq> None" using assms(2,3) by (auto simp: find_None_iff)
  then obtain c' cl' where "find ?fails (clusters s) = Some (c', cl')" by fastforce
  then show ?thesis by (simp add: locate_unpinned [OF assms(1)])
qed

lemma locate_hits_Inr: "locate_hits s name hits = Inr h \<longleftrightarrow> hits = [h]"
  by (auto simp: locate_hits_def split: list.splits)

lemma locate_hits_NotFound:
  "(\<exists>e. locate_hits s name hits = Inl e \<and> IsNotFound e) \<longleftrightarrow> hits = []"
  by (auto simp: locate_hits_def split: list.splits)

lemma locate_hits_Conflict:
  "(\<exists>e. locate_hits s name hits = Inl e \<and> IsConflict e) \<longleftrightarrow> 2 \<le> length hits"
  by (auto simp: locate_hits_def IsConflict_def split: list.splits)

lemma locate_hits_not_internal: "locate_hits s name hits = Inl e \<Longrightarrow> \<not> IsInternalError e"
  by (auto simp: locate_hits_def IsInternalError_def split: list.splits)

lemma locate_hits_cong:
  assumes "mset hits = mset hits'"
  shows "locate_hits s name hits = locate_hits s name hits'"
proof -
  have len: "length hits = length hits'" using assms by (metis size_mset)
  have names: "sort_Strings (map fst hits) = sort_Strings (map fst hits')"
    using assms by (intro sort_Strings_cong) (metis mset_map)
  show ?thesis
  proof (cases "length hits \<le> 1")
    case True
    with assms len have "hits = hits'"
      by (cases hits; cases hits') auto
    then show ?thesis by simp
  next
    case False
    with len names show ?thesis
      by (auto simp: locate_hits_def split: list.splits)
  qed
qed

lemma reordered_simps [simp]:
  "clusters (reordered s cs) = cs"
  "Storage_client (reordered s cs) = Storage_client s"
  "get_answer (reordered s cs) = get_answer s"
  "list_answer (reordered s cs) = list_answer s"
  "locate_hits (reordered s cs) = locate_hits s"
  by (auto simp: reordered_def Storage_client_def get_answer_def list_answer_def locate_hits_def
      fun_eq_iff split: list.splits)

lemma mset_hits_of_reordered:
  assumes "mset cs = mset (clusters s)"
  shows "mset (hits_of (reordered s cs) cx name opts w) = mset (hits_of s cx name opts w)"
  unfolding hits_of_def reordered_simps by (rule mset_concat_map_cong [OF assms])

lemma gets_read_reordered:
  assumes "mset cs = mset (clusters s)"
  shows "gets_read (reordered s cs) ns = gets_read s ns"
  unfolding gets_read_def reordered_simps mset_eq_setD [OF assms] by (rule refl)

subsection \<open>Listing\<close>

lemma item_less_key: "item_less a b \<longleftrightarrow> item_key a < item_key b"
  by (auto simp: item_less_def item_key_def)

lemma sort_items: "sort_Slice item_less items = sort_key item_key items"
  by (rule sort_Slice_key) (rule item_less_key)

interpretation list_fan: labelled_fan_out "list_fetch s namespace listOptions" cluster_of fst
  for s namespace listOptions
  by unfold_locales (auto simp: list_fetch_def split: prod.splits sum.splits)

interpretation locate_fan: labelled_fan_out "locate_probe s namespace name opts" fst fst
  for s namespace name opts
  by unfold_locales (auto simp: locate_probe_def split: prod.splits sum.splits if_splits)

lemma list_fetch_reads:
  assumes "lists_read s namespace" and "set ts \<subseteq> set (clusters s)"
  shows "reads (list_fetch s namespace listOptions) ts"
  unfolding reads_def
proof (intro ballI allI)
  fix t cx w
  assume mem: "t \<in> set ts"
  obtain c cl where t: "t = (c, cl)" by fastforce
  with mem assms(2) have "(c, cl) \<in> set (clusters s)" by auto
  with assms(1) have "snd (ri_List (Storage_client s cl namespace) cx listOptions w) = w"
    by (auto simp: lists_read_def)
  then show "snd (list_fetch s namespace listOptions cx t w) = w"
    by (auto simp: list_fetch_def t split: prod.splits sum.splits)
qed

lemma list_fetch_result:
  "fst (list_fetch s (ctx_namespace cx) lo cx (c, cl) w) =
     (case list_answer s cx lo w cl of
        Inl err \<Rightarrow> Inl (Wrapf ''listing from cluster %q: %w'' [c] err)
      | Inr list \<Rightarrow> Inr (map (\<lambda>item. stamp item c) (l_items list)))"
  by (auto simp: list_fetch_def list_answer_def split: prod.splits sum.splits)

lemma Storage_List_unfold:
  assumes "list_selection L s options = (lo, cs)"
  shows "Storage_List L s cx options w =
    (case group_wait (list_fetch s (ctx_namespace cx) lo) cx cs w of
       (Inl err, w') \<Rightarrow> (Inl (Status (InternalError err)), w')
     | (Inr items, w') \<Rightarrow> (Inr ((Storage_NewList s)\<lparr>l_items := sort_key item_key items\<rparr>), w'))"
  using assms by (auto simp: Storage_List_def list_selection_def sort_items split: prod.splits sum.splits)

lemma list_selection_subset:
  "list_selection L s options = (lo, cs) \<Longrightarrow> set cs \<subseteq> set (clusters s)"
  by (auto simp: list_selection_def split: prod.splits)

lemma Storage_List_ok:
  assumes reads: "lists_read s (ctx_namespace cx)"
    and sel: "list_selection L s options = (lo, cs)"
    and ok: "\<And>c cl. (c, cl) \<in> set cs \<Longrightarrow> list_answer s cx lo w cl = Inr (answer c cl)"
  shows "Storage_List L s cx options w =
    (Inr ((Storage_NewList s)\<lparr>l_items := sort_key item_key
       (concat (map (\<lambda>(c, cl). map (\<lambda>item. stamp item c) (l_items (answer c cl))) cs))\<rparr>), w)"
proof -
  let ?body = "list_fetch s (ctx_namespace cx) lo"
  have rd: "reads ?body cs" by (rule list_fetch_reads [OF reads list_selection_subset [OF sel]])
  have fst: "fst (?body cx t w) = (case t of (c, cl) \<Rightarrow> Inr (map (\<lambda>item. stamp item c) (l_items (answer c cl))))"
    if "t \<in> set cs" for t
  proof (cases t)
    case (Pair c cl)
    with ok that show ?thesis by (simp add: list_fetch_result)
  qed
  then have "find (\<lambda>t. isl (fst (?body cx t w))) cs = None"
    by (auto simp: find_None_iff)
  moreover have "concat (map (\<lambda>t. projr (fst (?body cx t w))) cs) =
      concat (map (\<lambda>(c, cl). map (\<lambda>item. stamp item c) (l_items (answer c cl))) cs)"
    using fst by (intro arg_cong [where f = concat] map_cong) auto
  ultimately have "fst (group_wait ?body cx cs w) =
      Inr (concat (map (\<lambda>(c, cl). map (\<lambda>item. stamp item c) (l_items (answer c cl))) cs))"
    by (simp add: group_wait_run_all run_all_reads [OF rd])
  with group_wait_reads [OF rd, of cx w] show ?thesis
    by (cases "group_wait ?body cx cs w") (simp add: Storage_List_unfold [OF sel])
qed

lemma Storage_List_fail:
  assumes reads: "lists_read s (ctx_namespace cx)"
    and sel: "list_selection L s options = (lo, cs)"
    and fails: "(c, cl) \<in> set cs" "isl (list_answer s cx lo w cl)"
  shows "\<exists>e. Storage_List L s cx options w = (Inl (Status (InternalError e)), w)"
proof -
  let ?body = "list_fetch s (ctx_namespace cx) lo"
  have rd: "reads ?body cs" by (rule list_fetch_reads [OF reads list_selection_subset [OF sel]])
  have "isl (fst (?body cx (c, cl) w))"
    using fails(2) by (auto simp: list_fetch_result split: sum.splits)
  with fails(1) have "find (\<lambda>t. isl (fst (?body cx t w))) cs \<noteq> None"
    by (auto simp: find_None_iff)
  then obtain t where "find (\<lambda>t. isl (fst (?body cx t w))) cs = Some t" by auto
  then have "fst (group_wait ?body cx cs w) = Inl (projl (fst (?body cx t w)))"
    by (simp add: group_wait_run_all run_all_reads [OF rd])
  with group_wait_reads [OF rd, of cx w] show ?thesis
    by (cases "group_wait ?body cx cs w") (simp add: Storage_List_unfold [OF sel])
qed

subsection \<open>What a probe can conclude\<close>

lemma miss_iff: "(\<exists>e. r = Inl e \<and> IsNotFound e) \<longleftrightarrow> isl r \<and> \<not> probe_fails r"
  by (cases r) (auto simp: probe_fails_def)

lemma hit_not_failed: "\<not> isl r \<Longrightarrow> \<not> probe_fails r"
  by (cases r) (auto simp: probe_fails_def)

lemma locate_cases:
  assumes "gets_read s (ctx_namespace cx)"
  shows "all_answered s cx name (get_opts options) w \<Longrightarrow>
      fst (locate s cx name options '''' w) = locate_hits s name (hits_of s cx name (get_opts options) w)"
    and "\<not> all_answered s cx name (get_opts options) w \<Longrightarrow>
      \<exists>e. fst (locate s cx name options '''' w) = Inl (Status (InternalError e))"
  using locate_no_failure [OF assms, of name options w] locate_failure [OF assms, of _ _ name options w]
  by (auto simp: all_answered_def) fastforce

lemma single_hit:
  assumes "wf_map (clusters s)"
  shows "hits_of s cx name opts w = [(c, obj)] \<longleftrightarrow>
    (\<exists>cl. (c, cl) \<in> set (clusters s) \<and> get_answer s cx name opts w cl = Inr obj) \<and>
    (\<forall>c' cl'. (c', cl') \<in> set (clusters s) \<longrightarrow> c' \<noteq> c \<longrightarrow> isl (get_answer s cx name opts w cl'))"
    (is "?lhs \<longleftrightarrow> ?hit \<and> ?others")
proof -
  let ?hits = "hits_of s cx name opts w"
  have "?lhs \<longleftrightarrow> (c, obj) \<in> set ?hits \<and> (\<forall>h \<in> set ?hits. fst h = c)"
    using distinct_hits_of [OF assms, of cx name opts w] by (cases ?hits rule: remdups_adj.cases) auto
  also have "(\<forall>h \<in> set ?hits. fst h = c) \<longleftrightarrow> (\<forall>c' o'. (c', o') \<in> set ?hits \<longrightarrow> c' = c)" by auto
  also have "\<dots> \<longleftrightarrow> ?others"
    unfolding set_hits_of by (metis isl_def sum.collapse(2) sum.distinct(1))
  finally show ?thesis by (simp only: set_hits_of)
qed

lemma locate_single_owner:
  assumes "wf_map (clusters s)" and "gets_read s (ctx_namespace cx)"
  shows "fst (locate s cx name options '''' w) = Inr (c, obj) \<longleftrightarrow>
    (\<exists>cl. (c, cl) \<in> set (clusters s) \<and> get_answer s cx name (get_opts options) w cl = Inr obj) \<and>
    (\<forall>c' cl'. (c', cl') \<in> set (clusters s) \<longrightarrow> c' \<noteq> c \<longrightarrow>
       (\<exists>e. get_answer s cx name (get_opts options) w cl' = Inl e \<and> IsNotFound e))"
    (is "_ \<longleftrightarrow> ?hit \<and> ?others")
proof -
  let ?opts = "get_opts options" and ?hits = "hits_of s cx name (get_opts options) w"
  have "fst (locate s cx name options '''' w) = Inr (c, obj) \<longleftrightarrow>
      all_answered s cx name ?opts w \<and> ?hits = [(c, obj)]"
    using locate_cases [OF assms(2), of name options w]
    by (cases "all_answered s cx name ?opts w") (auto simp: locate_hits_Inr)
  also have "\<dots> \<longleftrightarrow> ?hit \<and> ?others"
  proof (cases ?hit)
    case True
    have "c' = c \<Longrightarrow> (c', cl') \<in> set (clusters s) \<Longrightarrow> \<not> isl (get_answer s cx name ?opts w cl')" for c' cl'
      using True assms(1) by (metis eq_key_imp_eq_value isl_def sum.distinct(1))
    with True show ?thesis
      unfolding single_hit [OF assms(1)] all_answered_def miss_iff by (metis hit_not_failed)
  next
    case False
    then show ?thesis unfolding single_hit [OF assms(1)] by blast
  qed
  finally show ?thesis .
qed

section \<open>Properties\<close>

text \<open>
  C1. An unpinned \<open>locate\<close> returns an object exactly when one cluster has it and every other
  cluster has answered that it does not: a cluster that cannot be asked never counts as a miss.
\<close>

theorem locate_unique_hit:
  assumes "wf_map (clusters s)" and "gets_read s (ctx_namespace cx)"
  shows "fst (locate s cx name options '''' w) = Inr (c, obj) \<longleftrightarrow>
    (\<exists>cl. (c, cl) \<in> set (clusters s) \<and> get_answer s cx name (get_opts options) w cl = Inr obj) \<and>
    (\<forall>c' cl'. (c', cl') \<in> set (clusters s) \<longrightarrow> c' \<noteq> c \<longrightarrow>
       (\<exists>e. get_answer s cx name (get_opts options) w cl' = Inl e \<and> IsNotFound e))"
  by (rule locate_single_owner [OF assms])

lemma demo_gets_read: "gets_read (demo_storage east_west) ns"
  by (auto simp: gets_read_def demo_defs split: option.splits)

theorem locate_unique_hit_witness:
  "fst (locate (demo_storage east_west) demo_ctx ''web'' None '''' web_east) =
     Inr (''east'', demo_object ''web'')"
proof -
  have "wf_map (clusters (demo_storage east_west))" by (simp add: demo_storage_def east_west_def)
  from locate_unique_hit [OF this demo_gets_read, of demo_ctx "''web''" None web_east "''east''" "demo_object ''web''"]
  show ?thesis
    by (simp add: demo_storage_def east_west_def get_answer_def)
      (simp add: demo_defs)
qed

text \<open>
  C21. An unpinned \<open>locate\<close> fails closed: it reports an internal error exactly when some cluster
  could not be asked, whatever the other clusters hold.
\<close>

theorem locate_fails_closed:
  assumes "gets_read s (ctx_namespace cx)"
  shows "(\<exists>e. fst (locate s cx name options '''' w) = Inl e \<and> IsInternalError e) \<longleftrightarrow>
    (\<exists>c cl. (c, cl) \<in> set (clusters s) \<and> probe_fails (get_answer s cx name (get_opts options) w cl))"
  using locate_cases [OF assms, of name options w]
  by (cases "all_answered s cx name (get_opts options) w")
    (auto simp: all_answered_def dest: locate_hits_not_internal)

theorem locate_fails_closed_witness:
  "\<exists>e. fst (locate (demo_storage ((''down'', down_client) # east_west)) demo_ctx ''web'' None ''''
         web_east) = Inl e \<and> IsInternalError e"
proof -
  let ?s = "demo_storage ((''down'', down_client) # east_west)"
  have "gets_read ?s (ctx_namespace demo_ctx)"
    by (auto simp: gets_read_def demo_defs split: option.splits)
  moreover have "(''down'', down_client) \<in> set (clusters ?s)" by (simp add: demo_storage_def)
  moreover have "probe_fails (get_answer ?s demo_ctx ''web'' (get_opts None) web_east down_client)"
    by (simp add: get_answer_def probe_fails_def demo_storage_def Storage_client_def down_client_def
        unreachable_def)
  ultimately show ?thesis
    using locate_fails_closed [of ?s demo_ctx "''web''" None web_east] by blast
qed

text \<open>
  When every cluster answers, an unpinned \<open>locate\<close> is \<open>NotFound\<close> exactly when no cluster has the
  object and a conflict exactly when at least two have it; the conflict names exactly those
  clusters, in alphabetical order.
\<close>

theorem locate_ambiguous:
  assumes "gets_read s (ctx_namespace cx)"
    and answered: "all_answered s cx name (get_opts options) w"
    and having: "having = keys (filter (\<lambda>(c, cl). \<not> isl (get_answer s cx name (get_opts options) w cl))
      (clusters s))"
  shows "((\<exists>e. fst (locate s cx name options '''' w) = Inl e \<and> IsNotFound e) \<longleftrightarrow> having = []) \<and>
    (2 \<le> length having \<longrightarrow> fst (locate s cx name options '''' w) =
      Inl (Status (Conflict (GVR_GroupResource (so_GVR (st_opts s))) name
        (New (sprintf ''found in multiple clusters: %s'' [strings_Join (sort_Strings having) '', ''])))))"
proof -
  let ?hits = "hits_of s cx name (get_opts options) w"
  have loc: "fst (locate s cx name options '''' w) = locate_hits s name ?hits"
    by (rule locate_cases(1) [OF assms(1) answered])
  have ks: "keys ?hits = having" by (simp add: hits_of_clusters having)
  then have "length ?hits = length having" by (metis length_map)
  then show ?thesis
    unfolding loc locate_hits_NotFound ks [symmetric]
    by (auto simp: locate_hits_def split: list.splits)
qed

lemma demo_all_answered: "all_answered (demo_storage east_west) demo_ctx name opts w"
  by (auto simp: all_answered_def get_answer_def probe_fails_def demo_defs split: option.splits)

theorem locate_ambiguous_witness:
  "fst (locate (demo_storage east_west) demo_ctx ''web'' None '''' web_both) =
     Inl (Status (Conflict (GVR_GroupResource deployments) ''web''
       (New ''found in multiple clusters: east, west'')))"
proof -
  let ?s = "demo_storage east_west"
  have hv: "[''east'', ''west''] = keys (filter (\<lambda>(c, cl).
      \<not> isl (get_answer ?s demo_ctx ''web'' (get_opts None) web_both cl)) (clusters ?s))"
    by (simp add: get_answer_def demo_defs)
  have "sort_Strings [''east'', ''west''] = [''east'', ''west'']"
    by (simp add: sort_Strings_def sort_Slice_def)
  then show ?thesis
    using locate_ambiguous [OF demo_gets_read demo_all_answered hv] by (simp add: demo_storage_def)
qed

text \<open>
  The order in which the clusters are visited, which Go leaves open, does not matter: as long
  as every cluster answers, every order gives the same result.
\<close>

theorem locate_order_irrelevant:
  assumes "gets_read s (ctx_namespace cx)" and "all_answered s cx name (get_opts options) w"
    and "mset cs = mset (clusters s)"
  shows "locate (reordered s cs) cx name options '''' w = locate s cx name options '''' w"
proof -
  have rd: "gets_read (reordered s cs) (ctx_namespace cx)"
    using assms(1) by (simp add: gets_read_reordered [OF assms(3)])
  have "set cs = set (clusters s)" using assms(3) by (rule mset_eq_setD)
  with assms(2) have "all_answered (reordered s cs) cx name (get_opts options) w"
    by (simp add: all_answered_def)
  then show ?thesis
    using locate_no_failure [OF rd, of name options w] locate_no_failure [OF assms(1), of name options w]
      locate_hits_cong [OF mset_hits_of_reordered [OF assms(3)]] assms(2)
    by (auto simp: all_answered_def)
qed

theorem locate_order_irrelevant_witness:
  "locate (reordered (demo_storage east_west) (rev east_west)) demo_ctx ''web'' None '''' web_both =
   locate (demo_storage east_west) demo_ctx ''web'' None '''' web_both"
  by (rule locate_order_irrelevant [OF demo_gets_read demo_all_answered])
    (simp add: demo_storage_def)

subsection \<open>List\<close>

text \<open>
  C18. A list over clusters that all answer is the merge of their answers: every item of every
  selected cluster, stamped with its cluster, exactly once, ordered by namespace, name and
  cluster, under a list head that carries no resource version.
\<close>

theorem list_merges_all:
  assumes "lists_read s (ctx_namespace cx)" and "list_selection L s options = (lo, cs)"
    and ok: "\<And>c cl. (c, cl) \<in> set cs \<Longrightarrow> list_answer s cx lo w cl = Inr (answer c cl)"
  shows "\<exists>lst. Storage_List L s cx options w = (Inr lst, w) \<and>
    mset (l_items lst) =
      (\<Sum>(c, cl) \<in># mset cs. image_mset (\<lambda>item. stamp item c) (mset (l_items (answer c cl)))) \<and>
    sorted (map item_key (l_items lst)) \<and> l_resourceVersion lst = ''''"
proof -
  let ?items = "concat (map (\<lambda>(c, cl). map (\<lambda>item. stamp item c) (l_items (answer c cl))) cs)"
  have "mset ?items =
      (\<Sum>(c, cl) \<in># mset cs. image_mset (\<lambda>item. stamp item c) (mset (l_items (answer c cl))))"
    unfolding mset_concat_map by (simp add: case_prod_unfold)
  moreover have "Storage_List L s cx options w =
      (Inr ((Storage_NewList s)\<lparr>l_items := sort_key item_key ?items\<rparr>), w)"
    using assms(3) by (rule Storage_List_ok [OF assms(1,2)])
  ultimately show ?thesis by simp
qed

lemma demo_lists_read: "lists_read (demo_storage east_west) ns"
  by (auto simp: lists_read_def demo_defs split: if_splits)

definition no_limit :: "(string \<times> string) list option \<Rightarrow> (string \<times> string) list internal_list_options" where
  "no_limit sel = no_internal_list_options\<lparr>ilo_labelSelector := sel\<rparr>"

lemma no_limit_simps [simp]:
  "ilo_labelSelector (no_limit sel) = sel" "ilo_fieldSelector (no_limit sel) = None"
  "ilo_limit (no_limit sel) = 0"
  by (simp_all add: no_limit_def no_internal_list_options_def)

lemma demo_selection:
  "list_selection eq_labels (demo_storage east_west) (no_limit None) = (no_list_options, east_west)"
  by (simp add: list_selection_def splitClusterSelector_def list_remote_options_def
      fieldSelectorString_def remote_selector_string_def no_list_options_def demo_storage_def
      case_prod_unfold)

theorem list_merges_all_witness:
  "\<exists>lst. Storage_List eq_labels (demo_storage east_west) demo_ctx (no_limit None) web_both =
       (Inr lst, web_both) \<and>
     mset (l_items lst) = {#stamp (demo_object ''web'') ''east'', stamp (demo_object ''api'') ''east'',
       stamp (demo_object ''web'') ''west''#}"
proof -
  have ans: "(c, cl) \<in> set east_west \<Longrightarrow>
      list_answer (demo_storage east_west) demo_ctx no_list_options web_both cl =
        Inr (mem_page 0 (mem_objects web_both c))" for c cl
    by (auto simp: list_answer_def demo_defs no_list_options_def)
  show ?thesis
    using list_merges_all [OF demo_lists_read demo_selection,
        where answer = "\<lambda>c cl. mem_page 0 (mem_objects web_both c)", OF ans]
    by (simp add: east_west_def add_mset_commute) blast
qed

text \<open>
  A list fails closed: it is an internal error exactly when one of the selected clusters does
  not answer, and otherwise it succeeds.
\<close>

theorem list_fails_closed:
  assumes "lists_read s (ctx_namespace cx)" and "list_selection L s options = (lo, cs)"
  shows "(\<exists>e. fst (Storage_List L s cx options w) = Inl e \<and> IsInternalError e) \<longleftrightarrow>
      (\<exists>c cl. (c, cl) \<in> set cs \<and> isl (list_answer s cx lo w cl))"
    (is "?lhs \<longleftrightarrow> ?rhs")
proof
  assume ?rhs
  then show ?lhs using Storage_List_fail [OF assms] by fastforce
next
  assume ?lhs
  show ?rhs
  proof (rule ccontr)
    assume "\<not> ?rhs"
    then have "(c, cl) \<in> set cs \<Longrightarrow> list_answer s cx lo w cl = Inr (projr (list_answer s cx lo w cl))"
      for c cl by (metis sum.collapse(2))
    from Storage_List_ok [OF assms, of w "\<lambda>c cl. projr (list_answer s cx lo w cl)", OF this] \<open>?lhs\<close>
    show False by simp
  qed
qed

theorem list_fails_closed_witness:
  "\<exists>e. fst (Storage_List eq_labels (demo_storage [(''down'', down_client), (''east'', mem_client ''east'')])
         demo_ctx (no_limit None) web_both) = Inl e \<and> IsInternalError e"
proof -
  let ?s = "demo_storage [(''down'', down_client), (''east'', mem_client ''east'')]"
  have rd: "lists_read ?s (ctx_namespace demo_ctx)"
    by (auto simp: lists_read_def demo_defs split: if_splits)
  have sel: "list_selection eq_labels ?s (no_limit None) = (no_list_options, clusters ?s)"
    by (simp add: list_selection_def splitClusterSelector_def list_remote_options_def
        fieldSelectorString_def remote_selector_string_def no_list_options_def demo_storage_def
        case_prod_unfold)
  have "(''down'', down_client) \<in> set (clusters ?s)" by (simp add: demo_storage_def)
  moreover have "isl (list_answer ?s demo_ctx no_list_options web_both down_client)"
    by (simp add: list_answer_def demo_storage_def Storage_client_def down_client_def)
  ultimately show ?thesis using list_fails_closed [OF rd sel, of web_both] by blast
qed

text \<open>
  C2. The cluster label is virtual: with member clusters that evaluate the selector they are sent,
  the list holds exactly the objects whose stamped form matches the selector the client sent,
  although no member cluster ever sees a term about the cluster label.
\<close>

theorem list_virtual_label:
  assumes laws: "labels_laws L sem" and req: "lp_Requirements L sel = (rs, True)"
    and reads: "lists_read s (ctx_namespace cx)"
    and sel: "ilo_labelSelector options = Some sel"
    and split: "splitClusterSelector L (Some sel) = (remote, matches)"
    and members: "\<And>c cl. (c, cl) \<in> set (clusters s) \<Longrightarrow> matches c \<Longrightarrow>
      list_answer s cx (list_remote_options L options remote) w cl = Inr (answer c cl) \<and>
      set (l_items (answer c cl)) = {obj \<in> holds c. remote_matches L remote (label_set obj)}"
  shows "\<exists>lst. Storage_List L s cx options w = (Inr lst, w) \<and>
    set (l_items lst) =
      {stamp obj c | obj c. c \<in> set (keys (clusters s)) \<and> obj \<in> holds c \<and>
         lp_Matches L sel (label_set (stamp obj c))}"
proof -
  let ?cs = "filter (\<lambda>(c, cl). matches c) (clusters s)"
  let ?items = "concat (map (\<lambda>(c, cl). map (\<lambda>item. stamp item c) (l_items (answer c cl))) ?cs)"
  have "list_selection L s options = (list_remote_options L options remote, ?cs)"
    by (simp add: list_selection_def sel split)
  moreover have "(c, cl) \<in> set ?cs \<Longrightarrow>
      list_answer s cx (list_remote_options L options remote) w cl = Inr (answer c cl)" for c cl
    using members by auto
  ultimately have "Storage_List L s cx options w =
      (Inr ((Storage_NewList s)\<lparr>l_items := sort_key item_key ?items\<rparr>), w)"
    by (rule Storage_List_ok [OF reads])
  moreover have step: "(\<exists>cl. (c, cl) \<in> set (clusters s) \<and> matches c \<and> obj \<in> set (l_items (answer c cl))) \<longleftrightarrow>
      c \<in> set (keys (clusters s)) \<and> obj \<in> holds c \<and> remote_matches L remote (label_set obj) \<and> matches c"
    for obj c
    using members [of c] by (auto intro: rev_image_eqI)
  moreover have "set ?items = {stamp obj c | obj c. \<exists>cl. (c, cl) \<in> set (clusters s) \<and>
      matches c \<and> obj \<in> set (l_items (answer c cl))}"
    by auto
  moreover have "\<dots> = {stamp obj c | obj c. c \<in> set (keys (clusters s)) \<and> obj \<in> holds c \<and>
         lp_Matches L sel (label_set (stamp obj c))}"
    unfolding label_set_stamp split_selectable [OF laws req split] using step by auto
  ultimately show ?thesis by auto
qed

definition web_labelled :: mem where
  "web_labelled = [(''east'', [(demo_object ''web'')\<lparr>u_labels := Some [''app'' \<mapsto> ''web'']\<rparr>]), (''west'', [])]"

theorem list_virtual_label_witness:
  "\<exists>lst. Storage_List eq_labels (demo_storage east_west) demo_ctx
       (no_limit (Some [(ClusterLabel, ''east''), (''app'', ''web'')])) web_labelled = (Inr lst, web_labelled) \<and>
     set (l_items lst) = {stamp obj c | obj c. c \<in> {''east'', ''west''} \<and>
       obj \<in> set (mem_objects web_labelled c) \<and>
       lp_Matches eq_labels [(ClusterLabel, ''east''), (''app'', ''web'')] (label_set (stamp obj c))}"
proof -
  let ?s = "demo_storage east_west" and ?sel = "[(ClusterLabel, ''east''), (''app'', ''web'')]"
  let ?lo = "list_remote_options eq_labels (no_limit (Some ?sel)) (Some [(''app'', ''web'')])"
  have split: "splitClusterSelector eq_labels (Some ?sel) =
      (Some [(''app'', ''web'')], \<lambda>c. c = ''east'')"
    by (auto simp: splitClusterSelector_def eq_labels_def ClusterLabel_def fun_eq_iff)
  have req: "lp_Requirements eq_labels ?sel = (?sel, True)" by (simp add: eq_labels_def)
  have member: "list_answer ?s demo_ctx ?lo web_labelled (mem_client ''east'') =
      Inr (mem_page 0 (mem_objects web_labelled ''east''))"
    by (simp add: list_answer_def demo_defs list_remote_options_def fieldSelectorString_def
        remote_selector_string_def no_list_options_def eq_labels_def web_labelled_def label_set_def)
  have "set (mem_objects web_labelled ''east'') =
      {obj \<in> set (mem_objects web_labelled ''east''). remote_matches eq_labels (Some [(''app'', ''web'')]) (label_set obj)}"
    by (auto simp: mem_objects_def web_labelled_def remote_matches_def eq_labels_def label_set_def)
  with member have "(c, cl) \<in> set (clusters ?s) \<Longrightarrow> c = ''east'' \<Longrightarrow>
      list_answer ?s demo_ctx ?lo web_labelled cl = Inr (mem_page 0 (mem_objects web_labelled c)) \<and>
      set (l_items (mem_page 0 (mem_objects web_labelled c))) =
        {obj \<in> set (mem_objects web_labelled c).
           remote_matches eq_labels (Some [(''app'', ''web'')]) (label_set obj)}" for c cl
    by (auto simp: demo_storage_def east_west_def)
  from list_virtual_label [OF eq_labels_laws req demo_lists_read _ split,
      where answer = "\<lambda>c cl. mem_page 0 (mem_objects web_labelled c)"
        and holds = "\<lambda>c. set (mem_objects web_labelled c)", OF _ this]
  show ?thesis by (simp add: demo_storage_def east_west_def)
qed

text \<open>
  Paging is lost: \<open>List\<close> hands the client's limit to every member cluster but returns neither
  a continuation nor the items that follow the first page, so a client that reads with a limit
  takes a partial list for the whole one.
\<close>

theorem list_loses_continuation:
  assumes "lists_read s (ctx_namespace cx)" and "list_selection L s options = (lo, cs)"
    and ok: "\<And>c cl. (c, cl) \<in> set cs \<Longrightarrow> list_answer s cx lo w cl = Inr (answer c cl)"
    and "(c, cl) \<in> set cs" and "l_continue (answer c cl) \<noteq> ''''"
  shows "lo_limit lo = ilo_limit options \<and>
    (\<exists>lst. Storage_List L s cx options w = (Inr lst, w) \<and> l_continue lst = '''' \<and>
      length (l_items lst) = (\<Sum>(c, cl) \<leftarrow> cs. length (l_items (answer c cl))))"
proof -
  have "lo_limit lo = ilo_limit options"
    using assms(2) by (auto simp: list_selection_def list_remote_options_def split: prod.splits)
  moreover have "length (concat (map (\<lambda>(c, cl). map (\<lambda>item. stamp item c) (l_items (answer c cl))) cs)) =
      (\<Sum>(c, cl) \<leftarrow> cs. length (l_items (answer c cl)))"
    by (simp add: length_concat case_prod_unfold comp_def)
  ultimately show ?thesis
    using Storage_List_ok [OF assms(1,2) ok] by simp
qed

theorem list_loses_continuation_witness:
  "\<exists>lst. Storage_List eq_labels (demo_storage [(''east'', mem_client ''east'')]) demo_ctx
       ((no_limit None)\<lparr>ilo_limit := 1\<rparr>) web_both = (Inr lst, web_both) \<and>
     l_continue lst = '''' \<and> length (l_items lst) = 1 \<and> length (mem_objects web_both ''east'') = 2"
proof -
  let ?s = "demo_storage [(''east'', mem_client ''east'')]"
  let ?lo = "no_list_options\<lparr>lo_limit := 1\<rparr>"
  have rd: "lists_read ?s (ctx_namespace demo_ctx)"
    by (auto simp: lists_read_def demo_defs split: if_splits)
  have sel: "list_selection eq_labels ?s ((no_limit None)\<lparr>ilo_limit := 1\<rparr>) = (?lo, clusters ?s)"
    by (simp add: list_selection_def splitClusterSelector_def list_remote_options_def
        fieldSelectorString_def remote_selector_string_def no_list_options_def demo_storage_def
        case_prod_unfold)
  have ans: "(c, cl) \<in> set (clusters ?s) \<Longrightarrow>
      list_answer ?s demo_ctx ?lo web_both cl = Inr (mem_page 1 (mem_objects web_both ''east''))" for c cl
    by (auto simp: list_answer_def demo_defs no_list_options_def)
  have more: "l_continue (mem_page 1 (mem_objects web_both ''east'')) \<noteq> ''''"
    by (simp add: mem_page_def)
  have mem: "(''east'', mem_client ''east'') \<in> set (clusters ?s)" by (simp add: demo_storage_def)
  from list_loses_continuation [OF rd sel, where answer = "\<lambda>c cl. mem_page 1 (mem_objects web_both ''east'')",
      OF ans mem more]
  show ?thesis by (simp add: demo_storage_def mem_page_def)
qed

end
