(* ===== verification/Writer.thy ===== *)
theory Writer
  imports Reader
begin

text \<open>
  \<open>pkg/apiserver/storage/writer.go\<close> and \<open>status.go\<close>: creating, updating and deleting objects in the
  member cluster that owns them, deleting collections across clusters, and the status
  subresource.
\<close>

section \<open>Definitions\<close>

text \<open>The verb \<open>%T\<close> of an object.\<close>

definition go_type :: "runtime_object \<Rightarrow> string" where
  "go_type obj = (case obj of Unstructured u \<Rightarrow> ''*unstructured.Unstructured''
     | UnstructuredList l \<Rightarrow> ''*unstructured.UnstructuredList'' | TypedObject t m \<Rightarrow> t)"

definition asUnstructured :: "('w, 'h) storage \<Rightarrow> runtime_object \<Rightarrow> unstructured result" where
  "asUnstructured s obj =
     (case obj of
        Unstructured u \<Rightarrow>
          Inr (if gvk_kind (u_gvk u) = '''' then u\<lparr>u_gvk := so_Kind (st_opts s)\<rparr> else u)
      | _ \<Rightarrow> Inl (Status (InternalError
               (New (sprintf ''expected unstructured object, got %T'' [go_type obj])))))"

definition run_validation :: "validate_object \<Rightarrow> ctx \<Rightarrow> unstructured \<Rightarrow> go_error option" where
  "run_validation v cx u = (case v of None \<Rightarrow> None | Some f \<Rightarrow> f cx u)"

definition run_update_validation ::
  "validate_update \<Rightarrow> ctx \<Rightarrow> unstructured \<Rightarrow> unstructured \<Rightarrow> go_error option" where
  "run_update_validation v cx u existing = (case v of None \<Rightarrow> None | Some f \<Rightarrow> f cx u existing)"

text \<open>
  The target of a create: the annotated cluster, or the only one there is (the loop over the one
  key of the map).
\<close>

definition create_target ::
  "('w, 'h) storage \<Rightarrow> string \<Rightarrow> (string \<times> ('w, 'h) dynamic_client) result" where
  "create_target s annotated =
     (if annotated = '''' \<and> length (clusters s) \<noteq> 1
      then Inl (Status (BadRequest (sprintf
             ''create requires the %s annotation naming the target cluster'' [ClusterAnnotation])))
      else (let cluster = (if annotated = '''' then fold (\<lambda>(name, cl) acc. name) (clusters s) annotated
                           else annotated)
            in case map_of (clusters s) cluster of
                 None \<Rightarrow> Inl (Status (BadRequest
                   (sprintf ''cluster %q is not part of this aggregated API'' [cluster])))
               | Some cl \<Rightarrow> Inr (cluster, cl)))"

definition Storage_Create ::
  "('w, 'h) storage \<Rightarrow> ctx \<Rightarrow> runtime_object \<Rightarrow> validate_object \<Rightarrow> write_options
     \<Rightarrow> ('w, unstructured) io" where
  "Storage_Create s cx obj createValidation options w =
     (case asUnstructured s obj of
        Inl err \<Rightarrow> (Inl err, w)
      | Inr u \<Rightarrow>
          (case create_target s (cluster_of u) of
             Inl err \<Rightarrow> (Inl err, w)
           | Inr (cluster, cl) \<Rightarrow>
               (case run_validation createValidation cx u of
                  Some err \<Rightarrow> (Inl err, w)
                | None \<Rightarrow>
                    (case ri_Create (Storage_client s cl (ctx_namespace cx)) cx (strip u) options w of
                       (Inl err, w') \<Rightarrow> (Inl err, w')
                     | (Inr created, w') \<Rightarrow> (Inr (stamp created cluster), w')))))"

text \<open>\<open>obj.(metav1.Object)\<close>: the annotations of an object that has metadata.\<close>

definition metav1_Object :: "runtime_object \<Rightarrow> string_map option option" where
  "metav1_Object obj = (case obj of Unstructured u \<Rightarrow> Some (u_annotations u)
     | UnstructuredList l \<Rightarrow> None | TypedObject t m \<Rightarrow> m)"

definition bodyCluster :: "('w, 'h) storage \<Rightarrow> ctx \<Rightarrow> updated_object_info \<Rightarrow> string" where
  "bodyCluster s cx objInfo =
     (case objInfo cx (Storage_New s) of
        Inl err \<Rightarrow> ''''
      | Inr obj \<Rightarrow> (case metav1_Object obj of
          None \<Rightarrow> '''' | Some annotations \<Rightarrow> map_get annotations ClusterAnnotation))"

text \<open>
  The part of \<open>Storage.Update\<close> and \<open>StatusStorage.Update\<close> that follows a successful \<open>locate\<close>;
  \<open>write\<close> is the method of the member's client that is called. Indexing the cluster map with the
  located cluster and calling a method on the result panics when the key is missing
  (\<open>nil_dereference\<close>); \<open>locate_member\<close> below shows that it never is.
\<close>

definition nil_dereference :: go_error where
  "nil_dereference = New ''runtime error: invalid memory address or nil pointer dereference''"

definition update_located ::
  "(('w, 'h) resource_interface \<Rightarrow> ctx \<Rightarrow> unstructured \<Rightarrow> write_options \<Rightarrow> ('w, unstructured) io) \<Rightarrow>
   ('w, 'h) storage \<Rightarrow> ctx \<Rightarrow> updated_object_info \<Rightarrow> validate_update \<Rightarrow> write_options
     \<Rightarrow> string \<Rightarrow> unstructured \<Rightarrow> ('w, unstructured \<times> bool) io" where
  "update_located write s cx objInfo updateValidation options cluster located w =
     (let existing = stamp located cluster
      in case objInfo cx (Unstructured existing) of
           Inl err \<Rightarrow> (Inl err, w)
         | Inr obj \<Rightarrow>
             (case asUnstructured s obj of
                Inl err \<Rightarrow> (Inl err, w)
              | Inr u \<Rightarrow>
                  (case run_update_validation updateValidation cx u existing of
                     Some err \<Rightarrow> (Inl err, w)
                   | None \<Rightarrow>
                       (case map_of (clusters s) cluster of
                          None \<Rightarrow> (Inl nil_dereference, w)
                        | Some cl \<Rightarrow>
                            (case write (Storage_client s cl (ctx_namespace cx)) cx (strip u) options w of
                               (Inl err, w') \<Rightarrow> (Inl err, w')
                             | (Inr updated, w') \<Rightarrow> (Inr (stamp updated cluster, False), w'))))))"

definition Storage_Update ::
  "('w, 'h) storage \<Rightarrow> ctx \<Rightarrow> string \<Rightarrow> updated_object_info \<Rightarrow> validate_object \<Rightarrow> validate_update
     \<Rightarrow> bool \<Rightarrow> write_options \<Rightarrow> ('w, unstructured \<times> bool) io" where
  "Storage_Update s cx name objInfo createValidation updateValidation forceAllowCreate options w =
     (case locate s cx name None (bodyCluster s cx objInfo) w of
        (Inl err, w') \<Rightarrow>
          if IsNotFound err \<and> forceAllowCreate
          then (case objInfo cx (Storage_New s) of
                  Inl updatedErr \<Rightarrow> (Inl updatedErr, w')
                | Inr obj \<Rightarrow>
                    (case Storage_Create s cx obj createValidation
                            \<lparr>wo_dryRun = wo_dryRun options, wo_fieldManager = wo_fieldManager options,
                             wo_fieldValidation = wo_fieldValidation options\<rparr> w' of
                       (Inl createErr, w'') \<Rightarrow> (Inl createErr, w'')
                     | (Inr created, w'') \<Rightarrow> (Inr (created, True), w'')))
          else (Inl err, w')
      | (Inr (cluster, existing), w') \<Rightarrow>
          update_located ri_Update s cx objInfo updateValidation options cluster existing w')"

definition Storage_Delete ::
  "('w, 'h) storage \<Rightarrow> ctx \<Rightarrow> string \<Rightarrow> validate_object \<Rightarrow> delete_options
     \<Rightarrow> ('w, unstructured \<times> bool) io" where
  "Storage_Delete s cx name deleteValidation options w =
     (case locate s cx name None '''' w of
        (Inl err, w') \<Rightarrow> (Inl err, w')
      | (Inr (cluster, existing), w') \<Rightarrow>
          (case run_validation deleteValidation cx existing of
             Some err \<Rightarrow> (Inl err, w')
           | None \<Rightarrow>
               (case map_of (clusters s) cluster of
                  None \<Rightarrow> (Inl nil_dereference, w')
                | Some cl \<Rightarrow>
                    (case ri_Delete (Storage_client s cl (ctx_namespace cx)) cx name options w' of
                       (Inl err, w'') \<Rightarrow> (Inl err, w'')
                     | (Inr _, w'') \<Rightarrow> (Inr (stamp existing cluster, True), w'')))))"

text \<open>The goroutine of \<open>DeleteCollection\<close> for one cluster.\<close>

definition delete_fetch ::
  "('w, 'h) storage \<Rightarrow> string \<Rightarrow> delete_options \<Rightarrow> list_options \<Rightarrow> ctx
     \<Rightarrow> string \<times> ('w, 'h) dynamic_client \<Rightarrow> ('w, unstructured list) io" where
  "delete_fetch s namespace options listOptions groupCtx t w =
     (case t of (cluster, cl) \<Rightarrow>
       (let resource = Storage_client s cl namespace
        in case ri_List resource groupCtx listOptions w of
             (Inl err, w') \<Rightarrow> (Inl (Wrapf ''listing from cluster %q: %w'' [cluster] err), w')
           | (Inr list, w') \<Rightarrow>
               (case ri_DeleteCollection resource groupCtx options listOptions w' of
                  (Inl err, w'') \<Rightarrow>
                    (Inl (Wrapf ''deleting collection in cluster %q: %w'' [cluster] err), w'')
                | (Inr _, w'') \<Rightarrow> (Inr (map (\<lambda>item. stamp item cluster) (l_items list)), w''))))"

text \<open>The validation callback is an argument of the source's method too; its body never calls it.\<close>

definition Storage_DeleteCollection ::
  "('sel, 'req) labels_pkg \<Rightarrow> ('w, 'h) storage \<Rightarrow> ctx \<Rightarrow> validate_object \<Rightarrow> delete_options
     \<Rightarrow> 'sel internal_list_options option \<Rightarrow> ('w, unstructured_list) io" where
  "Storage_DeleteCollection L s cx deleteValidation options listOptions w =
     (let lopts = (case listOptions of None \<Rightarrow> no_internal_list_options | Some o' \<Rightarrow> o')
      in case splitClusterSelector L (ilo_labelSelector lopts) of (remote, matches) \<Rightarrow>
        (case group_wait (delete_fetch s (ctx_namespace cx) options
                (no_list_options\<lparr>lo_fieldSelector := fieldSelectorString lopts,
                   lo_labelSelector := remote_selector_string L remote\<rparr>)) cx
                (filter (\<lambda>(cluster, cl). matches cluster) (clusters s)) w of
           (Inl err, w') \<Rightarrow> (Inl (Status (InternalError err)), w')
         | (Inr deleted, w') \<Rightarrow> (Inr ((Storage_NewList s)\<lparr>l_items := deleted\<rparr>), w')))"

subsection \<open>The status subresource\<close>

record ('w, 'h) status_storage =
  ss_parent :: "('w, 'h) storage"

definition NewStatus :: "('w, 'h) storage \<Rightarrow> ('w, 'h) status_storage" where
  "NewStatus parent = \<lparr>ss_parent = parent\<rparr>"

definition StatusStorage_New :: "('w, 'h) status_storage \<Rightarrow> runtime_object" where
  "StatusStorage_New s = Storage_New (ss_parent s)"

definition StatusStorage_Get ::
  "('w, 'h) status_storage \<Rightarrow> ctx \<Rightarrow> string \<Rightarrow> get_options option \<Rightarrow> ('w, unstructured) io" where
  "StatusStorage_Get s cx name options = Storage_Get (ss_parent s) cx name options"

definition StatusStorage_Update ::
  "('w, 'h) status_storage \<Rightarrow> ctx \<Rightarrow> string \<Rightarrow> updated_object_info \<Rightarrow> validate_object
     \<Rightarrow> validate_update \<Rightarrow> bool \<Rightarrow> write_options \<Rightarrow> ('w, unstructured \<times> bool) io" where
  "StatusStorage_Update s cx name objInfo createValidation updateValidation forceAllowCreate options w =
     (case locate (ss_parent s) cx name None (bodyCluster (ss_parent s) cx objInfo) w of
        (Inl err, w') \<Rightarrow> (Inl err, w')
      | (Inr (cluster, existing), w') \<Rightarrow>
          update_located ri_UpdateStatus (ss_parent s) cx objInfo updateValidation options
            cluster existing w')"

section \<open>The interface the API server uses\<close>

text \<open>
  \<open>rest.Getter\<close> and \<open>rest.Updater\<close> over member clusters: everything that is handed out carries the
  name of a member cluster.
\<close>

locale marked_store =
  fixes get :: "'s \<Rightarrow> ctx \<Rightarrow> string \<Rightarrow> get_options option \<Rightarrow> ('w, unstructured) io"
    and update :: "'s \<Rightarrow> ctx \<Rightarrow> string \<Rightarrow> updated_object_info \<Rightarrow> validate_object \<Rightarrow> validate_update
      \<Rightarrow> bool \<Rightarrow> write_options \<Rightarrow> ('w, unstructured \<times> bool) io"
    and members :: "'s \<Rightarrow> string set"
  assumes get_marked: "get s cx name options w = (Inr obj, w') \<Longrightarrow>
      \<exists>x c. c \<in> members s \<and> obj = stamp x c"
    and update_marked: "update s cx name info cv uv force wopts w = (Inr (obj, created), w') \<Longrightarrow>
      \<exists>x c. c \<in> members s \<and> obj = stamp x c"
begin

lemma get_source: "get s cx name options w = (Inr obj, w') \<Longrightarrow> cluster_of obj \<in> members s"
  using get_marked by fastforce

lemma update_source:
  "update s cx name info cv uv force wopts w = (Inr (obj, created), w') \<Longrightarrow> cluster_of obj \<in> members s"
  using update_marked by fastforce

lemma get_label:
  "get s cx name options w = (Inr obj, w') \<Longrightarrow> label_set obj ClusterLabel = Some (cluster_of obj)"
  using get_marked by (fastforce simp: label_set_stamp)

lemma update_label:
  "update s cx name info cv uv force wopts w = (Inr (obj, created), w') \<Longrightarrow>
     label_set obj ClusterLabel = Some (cluster_of obj)"
  using update_marked by (fastforce simp: label_set_stamp)

end

section \<open>Lemmas\<close>

lemma locate_member:
  assumes "locate s cx name options cluster w = (Inr (c, obj), w')"
  shows "c \<in> set (keys (clusters s))"
proof (cases "cluster = ''''")
  case False
  with assms have "map_of (clusters s) c \<noteq> None"
    by (auto simp: locate_def Let_def split: option.splits prod.splits sum.splits)
  then show ?thesis by (simp add: map_of_eq_None_iff)
next
  case True
  with assms obtain hits w1 where
    "group_wait (locate_probe s (ctx_namespace cx) name (get_opts options)) cx (clusters s) w = (Inr hits, w1)"
    and "locate_hits s name hits = Inr (c, obj)"
    by (auto simp: locate_def Let_def get_opts_def split: prod.splits sum.splits)
  then show ?thesis
    using locate_fan.group_wait_labels [of s "ctx_namespace cx" name "get_opts options" cx "clusters s" w
        hits w1 "(c, obj)"]
    by (simp add: locate_hits_Inr)
qed

lemma Storage_Get_marked:
  assumes "Storage_Get s cx name options w = (Inr obj, w')"
  shows "\<exists>x c. c \<in> set (keys (clusters s)) \<and> obj = stamp x c"
proof -
  from assms obtain c x w1 where "locate s cx name options '''' w = (Inr (c, x), w1)"
    and "obj = stamp x c"
    by (auto simp: Storage_Get_def split: prod.splits sum.splits)
  with locate_member [OF this(1)] show ?thesis by blast
qed

lemma create_target_Inr:
  "create_target s a = Inr (c, cl) \<Longrightarrow> map_of (clusters s) c = Some cl"
  by (auto simp: create_target_def Let_def split: if_splits option.splits)

lemma create_target_cluster:
  "create_target s a = Inr (c, cl) \<Longrightarrow> if a = '''' then clusters s = [(c, cl)] else c = a"
  by (cases "clusters s" rule: remdups_adj.cases)
    (auto simp: create_target_def Let_def split: if_splits option.splits)

lemma Storage_Create_marked:
  assumes "Storage_Create s cx obj v options w = (Inr r, w')"
  shows "\<exists>x c. c \<in> set (keys (clusters s)) \<and> r = stamp x c"
proof -
  from assms obtain u c cl x where "create_target s (cluster_of u) = Inr (c, cl)" and "r = stamp x c"
    by (auto simp: Storage_Create_def split: prod.splits sum.splits option.splits)
  then show ?thesis using create_target_Inr [THEN map_of_SomeD] by force
qed

lemma update_located_marked:
  assumes "update_located wr s cx info uv options cluster located w = (Inr (r, created), w')"
    and "cluster \<in> set (keys (clusters s))"
  shows "\<exists>x c. c \<in> set (keys (clusters s)) \<and> r = stamp x c"
  using assms
  by (auto simp: update_located_def Let_def split: prod.splits sum.splits option.splits)

lemma Storage_Update_marked:
  assumes "Storage_Update s cx name info cv uv force options w = (Inr (r, created), w')"
  shows "\<exists>x c. c \<in> set (keys (clusters s)) \<and> r = stamp x c"
proof (cases "locate s cx name None (bodyCluster s cx info) w")
  case (Pair res w1)
  show ?thesis
  proof (cases res)
    case (Inl e)
    with assms Pair obtain obj wopts w2 where "Storage_Create s cx obj cv wopts w1 = (Inr r, w2)"
      by (auto simp: Storage_Update_def split: if_splits sum.splits prod.splits)
    then show ?thesis by (rule Storage_Create_marked)
  next
    case (Inr ce)
    obtain c existing where ce: "ce = (c, existing)" by fastforce
    with Pair Inr have "c \<in> set (keys (clusters s))" using locate_member by fastforce
    moreover have "update_located ri_Update s cx info uv options c existing w1 = (Inr (r, created), w')"
      using assms Pair Inr ce by (simp add: Storage_Update_def)
    ultimately show ?thesis by (metis update_located_marked)
  qed
qed

lemma StatusStorage_Update_marked:
  assumes "StatusStorage_Update s cx name info cv uv force options w = (Inr (r, created), w')"
  shows "\<exists>x c. c \<in> set (keys (clusters (ss_parent s))) \<and> r = stamp x c"
proof -
  from assms obtain c existing w1 where
    "locate (ss_parent s) cx name None (bodyCluster (ss_parent s) cx info) w = (Inr (c, existing), w1)"
    and "update_located ri_UpdateStatus (ss_parent s) cx info uv options c existing w1 =
      (Inr (r, created), w')"
    by (auto simp: StatusStorage_Update_def split: prod.splits sum.splits)
  then show ?thesis by (metis locate_member update_located_marked)
qed

interpretation storage: marked_store Storage_Get Storage_Update "\<lambda>s. set (keys (clusters s))"
  by unfold_locales (rule Storage_Get_marked Storage_Update_marked, assumption)+

interpretation status: marked_store StatusStorage_Get StatusStorage_Update
    "\<lambda>s. set (keys (clusters (ss_parent s)))"
  by unfold_locales
    (rule Storage_Get_marked, simp add: StatusStorage_Get_def, rule StatusStorage_Update_marked)

interpretation delete_fan: labelled_fan_out "delete_fetch s namespace options listOptions" cluster_of fst
  for s namespace options listOptions
  by unfold_locales (auto simp: delete_fetch_def Let_def split: prod.splits sum.splits)

subsection \<open>What a write does\<close>

lemma Storage_Create_iff:
  "Storage_Create s cx obj cv options w = (Inr r, w') \<longleftrightarrow>
     (\<exists>u c cl created. asUnstructured s obj = Inr u \<and> create_target s (cluster_of u) = Inr (c, cl) \<and>
        run_validation cv cx u = None \<and>
        ri_Create (Storage_client s cl (ctx_namespace cx)) cx (strip u) options w = (Inr created, w') \<and>
        r = stamp created c)"
  by (auto simp: Storage_Create_def split: sum.splits prod.splits option.splits)

lemma create_target_Inr_iff:
  assumes "wf_map (clusters s)"
  shows "create_target s a = Inr (c, cl) \<longleftrightarrow>
    (if a = '''' then clusters s = [(c, cl)] else c = a \<and> (c, cl) \<in> set (clusters s))"
proof (cases "a = ''''")
  case True
  then show ?thesis
    by (cases "clusters s" rule: remdups_adj.cases) (auto simp: create_target_def Let_def)
next
  case False
  with assms show ?thesis
    by (auto simp: create_target_def Let_def split: option.splits
        dest: map_of_SomeD eq_key_imp_eq_value)
qed

lemma create_target_Inl_iff:
  "isl (create_target s a) \<longleftrightarrow>
     (if a = '''' then length (clusters s) \<noteq> 1 else a \<notin> set (keys (clusters s)))"
proof (cases "a = ''''")
  case True
  then show ?thesis
    by (cases "clusters s" rule: remdups_adj.cases) (auto simp: create_target_def Let_def)
next
  case False
  then show ?thesis
    by (auto simp: create_target_def Let_def isl_def map_of_eq_None_iff [symmetric] split: option.splits)
qed

lemma create_target_Inl_BadRequest: "create_target s a = Inl e \<Longrightarrow> IsBadRequest e"
  by (auto simp: create_target_def Let_def IsBadRequest_def split: if_splits option.splits)

lemma asUnstructured_Unstructured:
  "asUnstructured s (Unstructured u) =
     Inr (if gvk_kind (u_gvk u) = '''' then u\<lparr>u_gvk := so_Kind (st_opts s)\<rparr> else u)"
  by (simp add: asUnstructured_def)

lemma asUnstructured_cluster:
  "asUnstructured s obj = Inr u \<Longrightarrow> metav1_Object obj = Some (u_annotations u)"
  by (auto simp: asUnstructured_def metav1_Object_def split: runtime_object.splits if_splits)

lemma update_located_iff:
  assumes "map_of (clusters s) c = Some cl"
  shows "update_located write s cx info uv options c located w = (Inr (r, created), w') \<longleftrightarrow>
     \<not> created \<and> (\<exists>obj u updated. info cx (Unstructured (stamp located c)) = Inr obj \<and>
        asUnstructured s obj = Inr u \<and> run_update_validation uv cx u (stamp located c) = None \<and>
        write (Storage_client s cl (ctx_namespace cx)) cx (strip u) options w = (Inr updated, w') \<and>
        r = stamp updated c)"
  using assms by (auto simp: update_located_def Let_def split: sum.splits prod.splits option.splits)

lemma locate_pinned:
  assumes "cluster \<noteq> ''''" and "locate s cx name options cluster w = (Inr (c, obj), w')"
  shows "c = cluster"
  using assms by (auto simp: locate_def Let_def split: option.splits sum.splits prod.splits)

lemma locate_client:
  assumes "locate s cx name options cluster w = (Inr (c, obj), w')"
  obtains cl where "map_of (clusters s) c = Some cl"
  using locate_member [OF assms] by (metis map_of_eq_None_iff not_Some_eq set_map)

lemma bodyCluster_created:
  assumes "info cx (Storage_New s) = Inr obj" and "asUnstructured s obj = Inr u"
  shows "bodyCluster s cx info = cluster_of u"
  using assms by (simp add: bodyCluster_def asUnstructured_cluster cluster_of_def)

subsection \<open>Who owns a name\<close>

text \<open>
  The specification of \<open>locate\<close>: the cluster that owns a name, and that no cluster has it. With a
  pin only the pinned cluster counts; without one every cluster has to have answered.
\<close>

definition owned_by ::
  "('w, 'h) storage \<Rightarrow> ctx \<Rightarrow> string \<Rightarrow> get_options \<Rightarrow> string \<Rightarrow> 'w \<Rightarrow> string \<Rightarrow> unstructured \<Rightarrow> bool" where
  "owned_by s cx name opts pin w c obj \<longleftrightarrow>
     (\<exists>cl. (c, cl) \<in> set (clusters s) \<and> get_answer s cx name opts w cl = Inr obj) \<and>
     (if pin = ''''
      then \<forall>c' cl'. (c', cl') \<in> set (clusters s) \<longrightarrow> c' \<noteq> c \<longrightarrow>
             (\<exists>e. get_answer s cx name opts w cl' = Inl e \<and> IsNotFound e)
      else c = pin)"

definition absent ::
  "('w, 'h) storage \<Rightarrow> ctx \<Rightarrow> string \<Rightarrow> get_options \<Rightarrow> string \<Rightarrow> 'w \<Rightarrow> bool" where
  "absent s cx name opts pin w \<longleftrightarrow>
     (if pin = ''''
      then \<forall>c cl. (c, cl) \<in> set (clusters s) \<longrightarrow>
             (\<exists>e. get_answer s cx name opts w cl = Inl e \<and> IsNotFound e)
      else \<exists>cl e. (pin, cl) \<in> set (clusters s) \<and> get_answer s cx name opts w cl = Inl e \<and> IsNotFound e)"

lemma locate_pinned_result:
  assumes wf: "wf_map (clusters s)" and reads: "gets_read s (ctx_namespace cx)" and pin: "pin \<noteq> ''''"
  shows "locate s cx name options pin w =
    ((case map_of (clusters s) pin of
        None \<Rightarrow> Inl (Status (BadRequest
                  (sprintf ''cluster %q is not part of this aggregated API'' [pin])))
      | Some cl \<Rightarrow> (case get_answer s cx name (get_opts options) w cl of
                      Inl err \<Rightarrow> Inl err | Inr obj \<Rightarrow> Inr (pin, obj))), w)"
proof (cases "map_of (clusters s) pin")
  case None
  with pin show ?thesis by (simp add: locate_def Let_def)
next
  case (Some cl)
  then have "(pin, cl) \<in> set (clusters s)" by (rule map_of_SomeD)
  with reads have "snd (ri_Get (Storage_client s cl (ctx_namespace cx)) cx name (get_opts options) w) = w"
    by (auto simp: gets_read_def)
  with Some pin show ?thesis
    by (auto simp: locate_def Let_def get_answer_def get_opts_def split: prod.splits sum.splits)
qed

lemma locate_reads:
  assumes "wf_map (clusters s)" and "gets_read s (ctx_namespace cx)"
  shows "snd (locate s cx name options pin w) = w"
  using locate_pinned_result [OF assms] locate_unpinned [OF assms(2)]
  by (cases "pin = ''''") simp_all

lemma locate_owner:
  assumes "wf_map (clusters s)" and "gets_read s (ctx_namespace cx)"
  shows "locate s cx name options pin w = (Inr (c, obj), w') \<longleftrightarrow>
    owned_by s cx name (get_opts options) pin w c obj \<and> w' = w"
proof -
  have "fst (locate s cx name options pin w) = Inr (c, obj) \<longleftrightarrow>
      owned_by s cx name (get_opts options) pin w c obj"
  proof (cases "pin = ''''")
    case True
    then show ?thesis by (simp add: owned_by_def locate_single_owner [OF assms])
  next
    case False
    have "(\<exists>cl. (c, cl) \<in> set (clusters s) \<and> get_answer s cx name (get_opts options) w cl = Inr obj) \<and> c = pin
        \<longleftrightarrow> (\<exists>cl. map_of (clusters s) pin = Some cl \<and>
              get_answer s cx name (get_opts options) w cl = Inr obj \<and> c = pin)"
      using map_of_eq_Some_iff [OF assms(1), of pin] by blast
    also have "\<dots> \<longleftrightarrow> fst (locate s cx name options pin w) = Inr (c, obj)"
      unfolding locate_pinned_result [OF assms False]
      by (cases "map_of (clusters s) pin") (auto split: sum.split simp del: map_of_eq_Some_iff)
    finally show ?thesis using False by (simp add: owned_by_def)
  qed
  with locate_reads [OF assms, of name options pin w] show ?thesis
    by (metis fst_conv prod.collapse snd_conv)
qed

lemma owned_by_hits:
  assumes "wf_map (clusters s)" and "owned_by s cx name opts '''' w c obj"
  shows "hits_of s cx name opts w = [(c, obj)]"
  using assms(2) unfolding single_hit [OF assms(1)] owned_by_def by (auto simp: isl_def)

lemma get_opts_None: "get_opts None = default_get_options"
  by (simp add: get_opts_def)

lemma locate_refused:
  assumes "wf_map (clusters s)" and "gets_read s (ctx_namespace cx)"
    and none: "\<nexists>c obj. owned_by s cx name (get_opts options) pin w c obj"
  shows "\<exists>e. locate s cx name options pin w = (Inl e, w)"
proof (cases "locate s cx name options pin w")
  case (Pair res w1)
  with locate_reads [OF assms(1,2), of name options pin w] have w1: "w1 = w" by simp
  show ?thesis
  proof (cases res)
    case (Inl e)
    with Pair w1 show ?thesis by simp
  next
    case (Inr h)
    obtain c obj where "h = (c, obj)" by fastforce
    with Pair Inr have "locate s cx name options pin w = (Inr (c, obj), w1)" by simp
    then have "owned_by s cx name (get_opts options) pin w c obj"
      unfolding locate_owner [OF assms(1,2)] by (rule conjunct1)
    with none show ?thesis by blast
  qed
qed

lemma locate_absent:
  assumes "wf_map (clusters s)" and "gets_read s (ctx_namespace cx)"
  shows "(\<exists>e. fst (locate s cx name options pin w) = Inl e \<and> IsNotFound e) \<longleftrightarrow>
    absent s cx name (get_opts options) pin w"
proof (cases "pin = ''''")
  case False
  have "absent s cx name (get_opts options) pin w \<longleftrightarrow>
      (\<exists>cl e. map_of (clusters s) pin = Some cl \<and>
        get_answer s cx name (get_opts options) w cl = Inl e \<and> IsNotFound e)"
    using map_of_eq_Some_iff [OF assms(1), of pin] False by (simp add: absent_def)
  also have "\<dots> \<longleftrightarrow> (\<exists>e. fst (locate s cx name options pin w) = Inl e \<and> IsNotFound e)"
    unfolding locate_pinned_result [OF assms False]
    by (cases "map_of (clusters s) pin") (auto split: sum.split simp del: map_of_eq_Some_iff)
  finally show ?thesis by simp
next
  case True
  let ?opts = "get_opts options"
  have hits: "hits_of s cx name ?opts w = [] \<longleftrightarrow>
      (\<forall>c cl. (c, cl) \<in> set (clusters s) \<longrightarrow> isl (get_answer s cx name ?opts w cl))"
    using set_hits_of [of _ _ s cx name ?opts w]
    by (metis isl_def last_in_set old.prod.exhaust set_empty2 sum.collapse(2) empty_iff empty_set sum.distinct(1))
  have "(\<exists>e. fst (locate s cx name options '''' w) = Inl e \<and> IsNotFound e) \<longleftrightarrow>
      all_answered s cx name ?opts w \<and> hits_of s cx name ?opts w = []"
  proof (cases "all_answered s cx name ?opts w")
    case True
    then show ?thesis by (simp add: locate_cases(1) [OF assms(2)] locate_hits_NotFound)
  next
    case False
    from locate_cases(2) [OF assms(2) this] False show ?thesis by (auto simp: IsNotFound_def)
  qed
  also have "\<dots> \<longleftrightarrow> absent s cx name ?opts '''' w"
    unfolding absent_def miss_iff hits all_answered_def by auto
  finally show ?thesis using True by simp
qed

lemma locate_error_kinds:
  assumes "gets_read s (ctx_namespace cx)" and "fst (locate s cx name options '''' w) = Inl e"
  shows "IsInternalError e \<longleftrightarrow> \<not> all_answered s cx name (get_opts options) w"
    and "IsConflict e \<longleftrightarrow> all_answered s cx name (get_opts options) w \<and>
      2 \<le> length (hits_of s cx name (get_opts options) w)"
proof -
  show "IsInternalError e \<longleftrightarrow> \<not> all_answered s cx name (get_opts options) w"
    using locate_cases [OF assms(1), of name options w] assms(2) locate_hits_not_internal by fastforce
  show "IsConflict e \<longleftrightarrow> all_answered s cx name (get_opts options) w \<and>
      2 \<le> length (hits_of s cx name (get_opts options) w)"
  proof (cases "all_answered s cx name (get_opts options) w")
    case True
    with locate_cases(1) [OF assms(1) True] assms(2) have
      "locate_hits s name (hits_of s cx name (get_opts options) w) = Inl e" by simp
    with True locate_hits_Conflict [of s name "hits_of s cx name (get_opts options) w"] show ?thesis
      by simp
  next
    case False
    with locate_cases(2) [OF assms(1) False] assms(2) show ?thesis by (auto simp: IsConflict_def)
  qed
qed

lemma Storage_Update_False_iff:
  assumes "wf_map (clusters s)" and "gets_read s (ctx_namespace cx)"
  shows "Storage_Update s cx name info cv uv force options w = (Inr (r, False), w') \<longleftrightarrow>
    (\<exists>c existing. owned_by s cx name default_get_options (bodyCluster s cx info) w c existing \<and>
       update_located ri_Update s cx info uv options c existing w = (Inr (r, False), w'))"
proof -
  have "Storage_Update s cx name info cv uv force options w = (Inr (r, False), w') \<longleftrightarrow>
      (\<exists>c existing w1. locate s cx name None (bodyCluster s cx info) w = (Inr (c, existing), w1) \<and>
         update_located ri_Update s cx info uv options c existing w1 = (Inr (r, False), w'))"
    by (cases "locate s cx name None (bodyCluster s cx info) w")
      (auto simp: Storage_Update_def split: prod.splits sum.splits if_splits)
  then show ?thesis by (simp add: locate_owner [OF assms] get_opts_def)
qed

lemma Storage_Update_True_iff:
  assumes "wf_map (clusters s)" and "gets_read s (ctx_namespace cx)"
  shows "Storage_Update s cx name info cv uv force options w = (Inr (r, True), w') \<longleftrightarrow>
    force \<and> absent s cx name default_get_options (bodyCluster s cx info) w \<and>
    (\<exists>obj. info cx (Storage_New s) = Inr obj \<and> Storage_Create s cx obj cv options w = (Inr r, w'))"
proof -
  let ?loc = "locate s cx name None (bodyCluster s cx info) w"
  have opts: "\<lparr>wo_dryRun = wo_dryRun options, wo_fieldManager = wo_fieldManager options,
      wo_fieldValidation = wo_fieldValidation options\<rparr> = options" by simp
  have "(\<exists>e. fst ?loc = Inl e \<and> IsNotFound e) \<longleftrightarrow>
      absent s cx name default_get_options (bodyCluster s cx info) w" and "snd ?loc = w"
    using locate_absent [OF assms] locate_reads [OF assms] by (simp_all add: get_opts_def)
  moreover have "update_located ri_Update s cx info uv options c existing w \<noteq> (Inr (r, True), w')" for c existing
    by (auto simp: update_located_def Let_def split: sum.splits prod.splits option.splits)
  ultimately show ?thesis
    unfolding Storage_Update_def opts
    by (cases ?loc; cases "fst ?loc") (auto split: prod.splits sum.splits if_splits)
qed

lemma StatusStorage_Update_iff:
  assumes "wf_map (clusters (ss_parent s))" and "gets_read (ss_parent s) (ctx_namespace cx)"
  shows "StatusStorage_Update s cx name info cv uv force options w = (Inr (r, created), w') \<longleftrightarrow>
    (\<exists>c existing. owned_by (ss_parent s) cx name default_get_options
         (bodyCluster (ss_parent s) cx info) w c existing \<and>
       update_located ri_UpdateStatus (ss_parent s) cx info uv options c existing w =
         (Inr (r, created), w'))"
proof -
  have "StatusStorage_Update s cx name info cv uv force options w = (Inr (r, created), w') \<longleftrightarrow>
      (\<exists>c existing w1. locate (ss_parent s) cx name None (bodyCluster (ss_parent s) cx info) w =
           (Inr (c, existing), w1) \<and>
         update_located ri_UpdateStatus (ss_parent s) cx info uv options c existing w1 =
           (Inr (r, created), w'))"
    by (cases "locate (ss_parent s) cx name None (bodyCluster (ss_parent s) cx info) w")
      (auto simp: StatusStorage_Update_def split: prod.splits sum.splits)
  then show ?thesis by (simp add: locate_owner [OF assms] get_opts_def)
qed

lemma update_located_owner:
  assumes "wf_map (clusters s)"
  shows "(\<exists>c existing. owned_by s cx name opts pin w c existing \<and>
       update_located write s cx info uv options c existing w = (Inr (r, created), w')) \<longleftrightarrow>
    \<not> created \<and> (\<exists>c cl existing obj u updated. owned_by s cx name opts pin w c existing \<and>
       (c, cl) \<in> set (clusters s) \<and> info cx (Unstructured (stamp existing c)) = Inr obj \<and>
       asUnstructured s obj = Inr u \<and> run_update_validation uv cx u (stamp existing c) = None \<and>
       write (Storage_client s cl (ctx_namespace cx)) cx (strip u) options w = (Inr updated, w') \<and>
       r = stamp updated c)" (is "?lhs \<longleftrightarrow> ?rhs")
proof -
  have "\<exists>cl. (c, cl) \<in> set (clusters s)" if "owned_by s cx name opts pin w c existing" for c existing
    using that by (auto simp: owned_by_def)
  then have "?lhs \<longleftrightarrow> (\<exists>c cl existing. owned_by s cx name opts pin w c existing \<and> (c, cl) \<in> set (clusters s) \<and>
       update_located write s cx info uv options c existing w = (Inr (r, created), w'))" by blast
  also have "\<dots> \<longleftrightarrow> ?rhs"
    using update_located_iff [OF map_of_is_SomeI [OF assms]] by (auto cong: conj_cong) blast+
  finally show ?thesis .
qed

lemma Storage_Delete_iff:
  assumes "wf_map (clusters s)" and "gets_read s (ctx_namespace cx)"
  shows "Storage_Delete s cx name dv options w = (Inr (r, now), w') \<longleftrightarrow>
    now \<and> (\<exists>c cl existing. owned_by s cx name default_get_options '''' w c existing \<and>
       map_of (clusters s) c = Some cl \<and> run_validation dv cx existing = None \<and>
       ri_Delete (Storage_client s cl (ctx_namespace cx)) cx name options w = (Inr (), w') \<and>
       r = stamp existing c)"
proof -
  have "Storage_Delete s cx name dv options w = (Inr (r, now), w') \<longleftrightarrow>
      now \<and> (\<exists>c cl existing w1. locate s cx name None '''' w = (Inr (c, existing), w1) \<and>
         map_of (clusters s) c = Some cl \<and> run_validation dv cx existing = None \<and>
         ri_Delete (Storage_client s cl (ctx_namespace cx)) cx name options w1 = (Inr (), w') \<and>
         r = stamp existing c)"
    by (cases "locate s cx name None '''' w")
      (auto simp: Storage_Delete_def simp del: map_of_eq_Some_iff
        split: prod.splits sum.splits option.splits)
  then show ?thesis by (simp add: locate_owner [OF assms] get_opts_def del: map_of_eq_Some_iff)
qed

section \<open>Properties\<close>

text \<open>
  C5. A create succeeds exactly when its body is an object, names a member cluster (or the API has
  a single one), passes validation and that one cluster accepts it. What the cluster is sent
  carries none of the aggregator's metadata, and what the client gets back is the cluster's
  answer marked with the cluster. No other cluster is called.
\<close>

theorem create_routes:
  assumes "wf_map (clusters s)"
  shows "Storage_Create s cx obj cv options w = (Inr r, w') \<longleftrightarrow>
     (\<exists>u c cl sent created. asUnstructured s obj = Inr u \<and> run_validation cv cx u = None \<and>
        (if cluster_of u = '''' then clusters s = [(c, cl)]
         else c = cluster_of u \<and> (c, cl) \<in> set (clusters s)) \<and>
        sent = strip u \<and> unmarked sent \<and>
        ri_Create (Storage_client s cl (ctx_namespace cx)) cx sent options w = (Inr created, w') \<and>
        r = stamp created c)"
  unfolding Storage_Create_iff create_target_Inr_iff [OF assms] by (auto cong: conj_cong)

definition pinned :: "string \<Rightarrow> string \<Rightarrow> unstructured" where
  "pinned name c = stamp (demo_object name) c"

lemma demo_wf: "wf_map (clusters (demo_storage east_west))"
  by (simp add: demo_storage_def east_west_def)

definition no_write_options :: write_options where
  "no_write_options = \<lparr>wo_dryRun = [], wo_fieldManager = '''', wo_fieldValidation = ''''\<rparr>"

theorem create_routes_witness:
  "Storage_Create (demo_storage east_west) demo_ctx (Unstructured (pinned ''db'' ''west'')) None
     no_write_options web_east =
   (Inr (stamp (strip (pinned ''db'' ''west'')) ''west''),
    [(''east'', [demo_object ''web'']), (''west'', [strip (pinned ''db'' ''west'')])])"
  unfolding create_routes [OF demo_wf] asUnstructured_Unstructured
  by (simp add: run_validation_def pinned_def stamp_fields strip_fields Let_def demo_storage_def
      east_west_def Storage_client_def mem_client_def)
    (simp add: demo_object_def Deployment_kind_def web_east_def mem_objects_def)

text \<open>
  A create whose target is unclear (no annotation and not exactly one cluster) or unknown is
  refused as a bad request and touches no cluster; these are the only refusals of the target.
\<close>

theorem create_refuses_unclear_target:
  assumes "asUnstructured s obj = Inr u"
  shows "(if cluster_of u = '''' then length (clusters s) \<noteq> 1 else cluster_of u \<notin> set (keys (clusters s)))
    \<longleftrightarrow> (\<exists>e. create_target s (cluster_of u) = Inl e \<and> IsBadRequest e \<and>
          (\<forall>cv options w. Storage_Create s cx obj cv options w = (Inl e, w)))"
  unfolding create_target_Inl_iff [symmetric]
  using create_target_Inl_BadRequest assms by (fastforce simp: isl_def Storage_Create_def)

theorem create_refuses_unclear_target_witness:
  "\<exists>e. IsBadRequest e \<and> Storage_Create (demo_storage east_west) demo_ctx
     (Unstructured (demo_object ''db'')) None no_write_options web_east = (Inl e, web_east)"
proof -
  let ?s = "demo_storage east_west"
  have "asUnstructured ?s (Unstructured (demo_object ''db'')) = Inr (demo_object ''db'')"
    by (simp add: asUnstructured_def demo_defs)
  from create_refuses_unclear_target [OF this, of demo_ctx] show ?thesis
    by (auto simp: demo_storage_def east_west_def cluster_of_def demo_object_def empty_unstructured_def)
qed

text \<open>
  Writes to one cluster do not depend on the others: a create pinned to a cluster by its
  annotation runs exactly as on a storage that knows this cluster only, so an unreachable or slow
  neighbour cannot make it fail.
\<close>

theorem create_isolated:
  assumes "wf_map (clusters s)" and "(c, cl) \<in> set (clusters s)" and "c \<noteq> ''''"
    and "asUnstructured s obj = Inr u" and "cluster_of u = c"
  shows "Storage_Create s cx obj cv options w =
    Storage_Create (reordered s [(c, cl)]) cx obj cv options w"
proof -
  have "asUnstructured (reordered s [(c, cl)]) obj = asUnstructured s obj"
    by (simp add: asUnstructured_def reordered_def split: runtime_object.splits)
  moreover have "create_target (reordered s [(c, cl)]) c = Inr (c, cl)"
    and "create_target s c = Inr (c, cl)"
    using assms(1-3) by (simp_all add: create_target_Inr_iff)
  ultimately show ?thesis using assms(4,5) by (simp add: Storage_Create_def split: option.split)
qed

theorem create_isolated_witness:
  "Storage_Create (demo_storage [(''east'', mem_client ''east''), (''north'', down_client)]) demo_ctx
     (Unstructured (pinned ''db'' ''east'')) None no_write_options web_east =
   Storage_Create (demo_storage [(''east'', mem_client ''east'')]) demo_ctx
     (Unstructured (pinned ''db'' ''east'')) None no_write_options web_east"
proof -
  let ?s = "demo_storage [(''east'', mem_client ''east''), (''north'', down_client)]"
  have "asUnstructured ?s (Unstructured (pinned ''db'' ''east'')) = Inr (pinned ''db'' ''east'')"
    by (simp add: asUnstructured_Unstructured pinned_def stamp_fields demo_object_def Deployment_kind_def)
  from create_isolated [OF _ _ _ this, of "''east''" "mem_client ''east''" demo_ctx None no_write_options web_east]
  show ?thesis by (simp add: pinned_def demo_storage_def reordered_def)
qed

text \<open>
  C4. An update is written to the one cluster that owns the name (the annotated cluster when the
  body carries the annotation, otherwise the only cluster that has the object, every other one
  having answered that it has not). It is computed against the marked object clients read, the
  cluster is sent the object without the marks, and no other cluster is written.
\<close>

theorem update_routes_to_owner:
  assumes "wf_map (clusters s)" and "gets_read s (ctx_namespace cx)"
  shows "Storage_Update s cx name info cv uv force options w = (Inr (r, False), w') \<longleftrightarrow>
    (\<exists>c cl existing obj u updated.
       owned_by s cx name default_get_options (bodyCluster s cx info) w c existing \<and>
       (c, cl) \<in> set (clusters s) \<and> info cx (Unstructured (stamp existing c)) = Inr obj \<and>
       asUnstructured s obj = Inr u \<and> run_update_validation uv cx u (stamp existing c) = None \<and>
       ri_Update (Storage_client s cl (ctx_namespace cx)) cx (strip u) options w = (Inr updated, w') \<and>
       r = stamp updated c)"
  unfolding Storage_Update_False_iff [OF assms] update_located_owner [OF assms(1)] by blast

definition set_content :: "json \<Rightarrow> updated_object_info" where
  "set_content j cx obj =
     (case obj of Unstructured u \<Rightarrow> Inr (Unstructured (u\<lparr>u_content := j\<rparr>)) | _ \<Rightarrow> Inr obj)"

lemma demo_bodyCluster: "bodyCluster (demo_storage cs) cx (set_content j) = ''''"
  by (simp add: bodyCluster_def set_content_def Storage_New_def metav1_Object_def empty_unstructured_def)

lemma demo_owner: "owned_by (demo_storage east_west) demo_ctx ''web'' opts '''' web_east ''east'' (demo_object ''web'')"
  by (simp add: owned_by_def demo_storage_def east_west_def get_answer_def) (simp add: demo_defs)

lemmas update_demo = set_content_def asUnstructured_def run_update_validation_def stamp_fields
  strip_fields Storage_client_def demo_storage_def east_west_def mem_client_def

definition scaled :: unstructured where
  "scaled = strip (stamp (demo_object ''web'') ''east'')\<lparr>u_content := JNum 3\<rparr>"

lemma scaled_content:
  "strip ((stamp (demo_object ''web'') ''east'')\<lparr>u_content := JNum 3\<rparr>) = scaled"
  by (simp add: scaled_def strip_def Let_def)

theorem update_routes_to_owner_witness:
  "Storage_Update (demo_storage east_west) demo_ctx ''web'' (set_content (JNum 3)) None None False
     no_write_options web_east =
   (Inr (stamp scaled ''east'', False), [(''east'', [scaled]), (''west'', [])])"
  unfolding update_routes_to_owner [OF demo_wf demo_gets_read] demo_bodyCluster
proof (intro exI conjI)
  show "owned_by (demo_storage east_west) demo_ctx ''web'' default_get_options '''' web_east ''east''
    (demo_object ''web'')" by (rule demo_owner)
  show "(''east'', mem_client ''east'') \<in> set (clusters (demo_storage east_west))"
    by (simp add: demo_storage_def east_west_def)
  show "set_content (JNum 3) demo_ctx (Unstructured (stamp (demo_object ''web'') ''east'')) =
      Inr (Unstructured ((stamp (demo_object ''web'') ''east'')\<lparr>u_content := JNum 3\<rparr>))"
    by (simp add: set_content_def)
  show "asUnstructured (demo_storage east_west)
      (Unstructured ((stamp (demo_object ''web'') ''east'')\<lparr>u_content := JNum 3\<rparr>)) =
      Inr ((stamp (demo_object ''web'') ''east'')\<lparr>u_content := JNum 3\<rparr>)"
    by (simp add: asUnstructured_def stamp_fields demo_object_def Deployment_kind_def)
  show "run_update_validation None demo_ctx ((stamp (demo_object ''web'') ''east'')\<lparr>u_content := JNum 3\<rparr>)
      (stamp (demo_object ''web'') ''east'') = None" by (simp add: run_update_validation_def)
  show "ri_Update (Storage_client (demo_storage east_west) (mem_client ''east'') (ctx_namespace demo_ctx))
      demo_ctx (strip ((stamp (demo_object ''web'') ''east'')\<lparr>u_content := JNum 3\<rparr>)) no_write_options
      web_east = (Inr scaled, [(''east'', [scaled]), (''west'', [])])"
    unfolding scaled_content
    by (simp add: Storage_client_def demo_storage_def mem_client_def)
      (simp add: scaled_def stamp_fields strip_fields in_scope_def web_east_def mem_objects_def demo_object_def
        demo_ctx_def)
qed (rule refl)

text \<open>
  The status subresource updates the same cluster, through its status endpoint, and never
  creates, whatever \<open>forceAllowCreate\<close> says.
\<close>

theorem status_update_routes_to_owner:
  assumes "wf_map (clusters (ss_parent s))" and "gets_read (ss_parent s) (ctx_namespace cx)"
  shows "StatusStorage_Update s cx name info cv uv force options w = (Inr (r, created), w') \<longleftrightarrow>
    \<not> created \<and> (\<exists>c cl existing obj u updated.
       owned_by (ss_parent s) cx name default_get_options (bodyCluster (ss_parent s) cx info) w c existing \<and>
       (c, cl) \<in> set (clusters (ss_parent s)) \<and> info cx (Unstructured (stamp existing c)) = Inr obj \<and>
       asUnstructured (ss_parent s) obj = Inr u \<and>
       run_update_validation uv cx u (stamp existing c) = None \<and>
       ri_UpdateStatus (Storage_client (ss_parent s) cl (ctx_namespace cx)) cx (strip u) options w =
         (Inr updated, w') \<and> r = stamp updated c)"
  unfolding StatusStorage_Update_iff [OF assms] update_located_owner [OF assms(1)] by blast

theorem status_update_routes_to_owner_witness:
  "StatusStorage_Update (NewStatus (demo_storage east_west)) demo_ctx ''web'' (set_content (JNum 3)) None None
     True no_write_options web_east =
   (Inr (stamp scaled ''east'', False),
    [(''east'', [(demo_object ''web'')\<lparr>u_content := JNum 3\<rparr>]), (''west'', [])])"
proof -
  let ?s = "NewStatus (demo_storage east_west)"
  let ?u = "(stamp (demo_object ''web'') ''east'')\<lparr>u_content := JNum 3\<rparr>"
  have parent: "ss_parent ?s = demo_storage east_west" by (simp add: NewStatus_def)
  have "asUnstructured (demo_storage east_west) (Unstructured ?u) = Inr ?u"
    by (simp add: asUnstructured_def stamp_fields demo_object_def Deployment_kind_def)
  moreover have "ri_UpdateStatus (Storage_client (demo_storage east_west) (mem_client ''east'')
      (ctx_namespace demo_ctx)) demo_ctx (strip ?u) no_write_options web_east =
      (Inr scaled, [(''east'', [(demo_object ''web'')\<lparr>u_content := JNum 3\<rparr>]), (''west'', [])])"
    unfolding scaled_content
    by (simp add: Storage_client_def demo_storage_def mem_client_def)
      (simp add: scaled_def stamp_fields strip_fields in_scope_def web_east_def mem_objects_def demo_object_def
        demo_ctx_def)
  moreover have "(''east'', mem_client ''east'') \<in> set (clusters (demo_storage east_west))"
    by (simp add: demo_storage_def east_west_def)
  moreover have "run_update_validation None demo_ctx ?u (stamp (demo_object ''web'') ''east'') = None"
    by (simp add: run_update_validation_def)
  moreover have "set_content (JNum 3) demo_ctx (Unstructured (stamp (demo_object ''web'') ''east'')) =
      Inr (Unstructured ?u)" by (simp add: set_content_def)
  moreover note demo_owner [of default_get_options] refl [of "stamp scaled ''east''"]
  ultimately show ?thesis
    unfolding status_update_routes_to_owner [of ?s, unfolded parent, OF demo_wf demo_gets_read]
      demo_bodyCluster
    by (intro conjI exI) (assumption | simp)+
qed

text \<open>
  C20. An update turns into a create only when that is allowed and the object is known to be
  absent: the pinned cluster, or without a pin every cluster, has answered that it does not have
  it. The object is then created, from an empty base, in the cluster the body names or in the only
  one there is.
\<close>

theorem update_creates_only_if_absent:
  assumes "wf_map (clusters s)" and "gets_read s (ctx_namespace cx)"
  shows "Storage_Update s cx name info cv uv force options w = (Inr (r, True), w') \<longleftrightarrow>
    force \<and> absent s cx name default_get_options (bodyCluster s cx info) w \<and>
    (\<exists>obj. info cx (Storage_New s) = Inr obj \<and> Storage_Create s cx obj cv options w = (Inr r, w') \<and>
       (if bodyCluster s cx info = '''' then \<exists>cl. clusters s = [(cluster_of r, cl)]
        else cluster_of r = bodyCluster s cx info))"
proof -
  have "if bodyCluster s cx info = '''' then \<exists>cl. clusters s = [(cluster_of r, cl)]
      else cluster_of r = bodyCluster s cx info"
    if "info cx (Storage_New s) = Inr obj" and "Storage_Create s cx obj cv options w = (Inr r, w')" for obj
  proof -
    from that(2) obtain u c cl created where u: "asUnstructured s obj = Inr u"
      and tgt: "create_target s (cluster_of u) = Inr (c, cl)" and "r = stamp created c"
      unfolding Storage_Create_iff by blast
    then have "cluster_of r = c" by simp
    with create_target_cluster [OF tgt] bodyCluster_created [of info, OF that(1) u] show ?thesis
      by (simp split: if_splits)
  qed
  then show ?thesis unfolding Storage_Update_True_iff [OF assms] by blast
qed

definition set_object :: "unstructured \<Rightarrow> updated_object_info" where
  "set_object u cx obj = Inr (Unstructured u)"

theorem update_creates_only_if_absent_witness:
  "Storage_Update (demo_storage east_west) demo_ctx ''db'' (set_object (pinned ''db'' ''west'')) None None True
     no_write_options web_east =
   (Inr (stamp (strip (pinned ''db'' ''west'')) ''west'', True),
    [(''east'', [demo_object ''web'']), (''west'', [strip (pinned ''db'' ''west'')])])"
proof -
  let ?s = "demo_storage east_west" and ?info = "set_object (pinned ''db'' ''west'')"
  have body: "bodyCluster ?s demo_ctx ?info = ''west''"
    using marker.source_mark [of "demo_object ''db''" "''west''"]
    by (simp add: bodyCluster_def set_object_def metav1_Object_def pinned_def cluster_of_def)
  have "absent ?s demo_ctx ''db'' default_get_options ''west'' web_east"
    by (simp add: absent_def demo_storage_def east_west_def get_answer_def) (simp add: demo_defs)
  moreover have "Storage_Create ?s demo_ctx (Unstructured (pinned ''db'' ''west'')) None no_write_options web_east =
      (Inr (stamp (strip (pinned ''db'' ''west'')) ''west''),
       [(''east'', [demo_object ''web'']), (''west'', [strip (pinned ''db'' ''west'')])])"
    unfolding Storage_Create_iff create_target_Inr_iff [OF demo_wf] asUnstructured_Unstructured
    by (simp add: run_validation_def pinned_def stamp_fields strip_fields demo_storage_def
        east_west_def Storage_client_def mem_client_def)
      (simp add: demo_object_def Deployment_kind_def web_east_def mem_objects_def)
  ultimately show ?thesis
    unfolding update_creates_only_if_absent [OF demo_wf demo_gets_read] body
    by (simp add: set_object_def)
qed

text \<open>
  C6. A delete reaches exactly one cluster, and only when that cluster is the only one with the
  object and every other cluster has answered that it does not have it; the reply is the object as
  it was, marked with its cluster.
\<close>

theorem delete_only_from_owner:
  assumes "wf_map (clusters s)" and "gets_read s (ctx_namespace cx)"
  shows "Storage_Delete s cx name dv options w = (Inr (r, now), w') \<longleftrightarrow>
    now \<and> (\<exists>c cl existing. owned_by s cx name default_get_options '''' w c existing \<and>
       (c, cl) \<in> set (clusters s) \<and> run_validation dv cx existing = None \<and>
       ri_Delete (Storage_client s cl (ctx_namespace cx)) cx name options w = (Inr (), w') \<and>
       r = stamp existing c)"
  unfolding Storage_Delete_iff [OF assms] map_of_eq_Some_iff [OF assms(1)] by blast

definition no_delete_options :: delete_options where
  "no_delete_options = \<lparr>do_dryRun = [], do_gracePeriodSeconds = None, do_propagationPolicy = None\<rparr>"

theorem delete_only_from_owner_witness:
  "Storage_Delete (demo_storage east_west) demo_ctx ''web'' None no_delete_options web_east =
     (Inr (stamp (demo_object ''web'') ''east'', True), [(''east'', []), (''west'', [])])"
proof -
  have "ri_Delete (Storage_client (demo_storage east_west) (mem_client ''east'') (ctx_namespace demo_ctx))
      demo_ctx ''web'' no_delete_options web_east = (Inr (), [(''east'', []), (''west'', [])])"
    by (simp add: demo_defs)
  moreover have "(''east'', mem_client ''east'') \<in> set (clusters (demo_storage east_west))"
    by (simp add: demo_storage_def east_west_def)
  moreover have "run_validation None demo_ctx (demo_object ''web'') = None" by (simp add: run_validation_def)
  ultimately show ?thesis
    unfolding delete_only_from_owner [OF demo_wf demo_gets_read] using demo_owner by blast
qed

text \<open>
  A delete of a name that several clusters have is refused as a conflict, and one that some
  cluster could not be asked about as an internal error; both leave every cluster as it was.
\<close>

theorem delete_refused_untouched:
  assumes "wf_map (clusters s)" and "gets_read s (ctx_namespace cx)"
    and "\<nexists>c existing. owned_by s cx name default_get_options '''' w c existing"
  shows "\<exists>e. Storage_Delete s cx name dv options w = (Inl e, w) \<and>
    (IsInternalError e \<longleftrightarrow> \<not> all_answered s cx name default_get_options w) \<and>
    (IsNotFound e \<longleftrightarrow> absent s cx name default_get_options '''' w) \<and>
    (IsConflict e \<longleftrightarrow> all_answered s cx name default_get_options w \<and>
       2 \<le> length (hits_of s cx name default_get_options w))"
proof -
  have "\<nexists>c obj. owned_by s cx name (get_opts None) '''' w c obj" unfolding get_opts_None by (rule assms(3))
  from locate_refused [OF assms(1,2) this] obtain e where e: "locate s cx name None '''' w = (Inl e, w)"
    by (elim exE)
  then have "Storage_Delete s cx name dv options w = (Inl e, w)" by (simp add: Storage_Delete_def)
  moreover have "IsNotFound e \<longleftrightarrow> absent s cx name default_get_options '''' w"
    using locate_absent [OF assms(1,2), of name None "''''" w] e by (simp add: get_opts_def)
  moreover have "fst (locate s cx name None '''' w) = Inl e" by (simp add: e)
  note locate_error_kinds [OF assms(2) this, unfolded get_opts_None]
  ultimately show ?thesis by blast
qed

theorem delete_refused_untouched_witness:
  "\<exists>e. Storage_Delete (demo_storage east_west) demo_ctx ''web'' None no_delete_options web_both = (Inl e, web_both) \<and>
     IsConflict e"
proof -
  let ?s = "demo_storage east_west"
  have hits: "hits_of ?s demo_ctx ''web'' default_get_options web_both =
      [(''east'', demo_object ''web''), (''west'', demo_object ''web'')]"
    by (simp add: hits_of_def get_answer_def demo_storage_def east_west_def) (simp add: demo_defs)
  have "\<nexists>c existing. owned_by ?s demo_ctx ''web'' default_get_options '''' web_both c existing"
    using owned_by_hits [OF demo_wf] hits by fastforce
  from delete_refused_untouched [OF demo_wf demo_gets_read this, of None no_delete_options]
  show ?thesis using demo_all_answered [of "''web''" default_get_options web_both] hits by auto
qed

text \<open>
  A successful \<open>DeleteCollection\<close> has deleted the collection in every cluster the virtual
  label selects, one after the other, and reports what these clusters held, each object marked
  with its cluster; a cluster that is not selected is not called.
\<close>

theorem delete_collection_reports:
  assumes "splitClusterSelector L (ilo_labelSelector lopts) = (remote, matches)"
    and "Storage_DeleteCollection L s cx dv options (Some lopts) w = (Inr r, w')"
    and "lo = no_list_options\<lparr>lo_fieldSelector := fieldSelectorString lopts,
           lo_labelSelector := remote_selector_string L remote\<rparr>"
  shows "run_all (delete_fetch s (ctx_namespace cx) options lo) cx
           (filter (\<lambda>(c, cl). matches c) (clusters s)) w = (Inr (l_items r), w') \<and>
    (\<forall>c cl. (c, cl) \<in> set (clusters s) \<and> matches c \<longrightarrow>
       (\<exists>w1 w2 w3 list. ri_List (Storage_client s cl (ctx_namespace cx)) cx lo w1 = (Inr list, w2) \<and>
          ri_DeleteCollection (Storage_client s cl (ctx_namespace cx)) cx options lo w2 = (Inr (), w3) \<and>
          (\<forall>item \<in> set (l_items list). stamp item c \<in> set (l_items r)))) \<and>
    (\<forall>item \<in> set (l_items r). cluster_of item \<in> set (keys (clusters s)) \<and> matches (cluster_of item))"
proof (intro conjI allI ballI impI)
  let ?body = "delete_fetch s (ctx_namespace cx) options lo"
  let ?ts = "filter (\<lambda>(c, cl). matches c) (clusters s)"
  have gw: "group_wait ?body cx ?ts w = (Inr (l_items r), w')"
    using assms by (auto simp: Storage_DeleteCollection_def split: prod.splits sum.splits)
  then show run: "run_all ?body cx ?ts w = (Inr (l_items r), w')" by (simp add: group_wait_success_iff)
  fix c cl
  assume "(c, cl) \<in> set (clusters s) \<and> matches c"
  then have "(c, cl) \<in> set ?ts" by simp
  from run_all_each [OF run this] obtain w1 xs w2 where "?body cx (c, cl) w1 = (Inr xs, w2)"
    and "set xs \<subseteq> set (l_items r)" by blast
  then show "\<exists>w1 w2 w3 list. ri_List (Storage_client s cl (ctx_namespace cx)) cx lo w1 = (Inr list, w2) \<and>
      ri_DeleteCollection (Storage_client s cl (ctx_namespace cx)) cx options lo w2 = (Inr (), w3) \<and>
      (\<forall>item \<in> set (l_items list). stamp item c \<in> set (l_items r))"
    by (fastforce simp: delete_fetch_def Let_def split: prod.splits sum.splits)
next
  fix item
  assume item: "item \<in> set (l_items r)"
  have gw: "group_wait (delete_fetch s (ctx_namespace cx) options lo) cx
      (filter (\<lambda>(c, cl). matches c) (clusters s)) w = (Inr (l_items r), w')"
    using assms by (auto simp: Storage_DeleteCollection_def split: prod.splits sum.splits)
  from delete_fan.group_wait_labels [OF gw item]
  show "cluster_of item \<in> set (keys (clusters s))" and "matches (cluster_of item)" by auto
qed

definition west_only :: "(string \<times> string) list internal_list_options" where
  "west_only = no_internal_list_options\<lparr>ilo_labelSelector := Some [(ClusterLabel, ''west'')]\<rparr>"

lemma west_only_split:
  "splitClusterSelector eq_labels (ilo_labelSelector west_only) = (Some [], \<lambda>c. c = ''west'')"
  by (simp add: west_only_def splitClusterSelector_def eq_labels_def)

lemma west_only_run:
  "Storage_DeleteCollection eq_labels (demo_storage east_west) demo_ctx dv no_delete_options (Some west_only)
     web_both =
   (Inr ((Storage_NewList (demo_storage east_west))\<lparr>l_items := [stamp (demo_object ''web'') ''west'']\<rparr>),
    [(''east'', [demo_object ''web'', demo_object ''api'']), (''west'', [])])"
proof -
  have sel: "filter (\<lambda>(c, cl). c = ''west'') (clusters (demo_storage east_west)) =
      [(''west'', mem_client ''west'')]" by (simp add: demo_storage_def east_west_def)
  have str: "remote_selector_string eq_labels (Some []) = ''''"
    by (simp add: remote_selector_string_def eq_labels_def)
  have run: "delete_fetch (demo_storage east_west) (ctx_namespace demo_ctx) no_delete_options
      (no_list_options\<lparr>lo_fieldSelector := fieldSelectorString west_only, lo_labelSelector := ''''\<rparr>) demo_ctx
      (''west'', mem_client ''west'') web_both =
      (Inr [stamp (demo_object ''web'') ''west''],
       [(''east'', [demo_object ''web'', demo_object ''api'']), (''west'', [])])"
    by (simp add: delete_fetch_def demo_storage_def Storage_client_def mem_client_def mem_selects_def
        no_list_options_def demo_ctx_def in_scope_def)
      (simp add: demo_object_def web_both_def)
  show ?thesis
    unfolding Storage_DeleteCollection_def option.case Let_def west_only_split prod.case sel str
      group_wait_def group_go.simps group_ctx_None run by simp
qed

theorem delete_collection_reports_witness:
  "Storage_DeleteCollection eq_labels (demo_storage east_west) demo_ctx None no_delete_options (Some west_only)
     web_both =
   (Inr ((Storage_NewList (demo_storage east_west))\<lparr>l_items := [stamp (demo_object ''web'') ''west'']\<rparr>),
    [(''east'', [demo_object ''web'', demo_object ''api'']), (''west'', [])]) \<and>
   cluster_of (stamp (demo_object ''web'') ''west'') \<in> set (keys (clusters (demo_storage east_west)))"
  using delete_collection_reports [OF west_only_split west_only_run refl, THEN conjunct2, THEN conjunct2]
    west_only_run by simp

text \<open>
  The validation callback guards \<open>Delete\<close> but not \<open>DeleteCollection\<close>: with a callback that
  refuses every object, deleting the object by name is refused and changes nothing, while deleting
  the collection that contains it goes through.
\<close>

theorem delete_collection_skips_validation:
  "\<exists>L s cx refuse options lopts name w w' r (e :: go_error).
     refuse = Some (\<lambda>_ _. Some e) \<and>
     Storage_Delete (s :: (mem, nat) storage) cx name refuse options w = (Inl e, w) \<and>
     Storage_DeleteCollection (L :: ((string \<times> string) list, string \<times> string) labels_pkg) s cx refuse
       options (Some lopts) w = (Inr r, w') \<and> l_items r \<noteq> [] \<and> w' \<noteq> w"
proof (intro exI conjI)
  let ?e = "New ''forbidden''"
  show "Some (\<lambda>_ _. Some ?e) = Some (\<lambda>_ _. Some ?e)" by (rule refl)
  show "Storage_DeleteCollection eq_labels (demo_storage east_west) demo_ctx (Some (\<lambda>_ _. Some ?e))
      no_delete_options (Some west_only) web_both = 
   (Inr ((Storage_NewList (demo_storage east_west))\<lparr>l_items := [stamp (demo_object ''web'') ''west'']\<rparr>),
    [(''east'', [demo_object ''web'', demo_object ''api'']), (''west'', [])])"
    by (rule west_only_run)
  have "owned_by (demo_storage east_west) demo_ctx ''api'' default_get_options '''' web_both ''east''
      (demo_object ''api'')"
    by (simp add: owned_by_def demo_storage_def east_west_def get_answer_def) (simp add: demo_defs)
  then have "locate (demo_storage east_west) demo_ctx ''api'' None '''' web_both =
      (Inr (''east'', demo_object ''api''), web_both)"
    by (simp add: locate_owner [OF demo_wf demo_gets_read] get_opts_None)
  then show "Storage_Delete (demo_storage east_west) demo_ctx ''api'' (Some (\<lambda>_ _. Some ?e)) no_delete_options
      web_both = (Inl ?e, web_both)"
    by (simp add: Storage_Delete_def run_validation_def)
qed (simp_all add: web_both_def)

text \<open>
  A member cluster serves what it has just created: \<open>Get\<close> of the name answers with the object
  \<open>Create\<close> answered with.
\<close>

definition reads_own_writes :: "('w, 'h) storage \<Rightarrow> ctx \<Rightarrow> string \<Rightarrow> bool" where
  "reads_own_writes s cx name \<longleftrightarrow>
     (\<forall>(c, cl) \<in> set (clusters s). \<forall>u options w created w'.
        ri_Create (Storage_client s cl (ctx_namespace cx)) cx u options w = (Inr created, w') \<longrightarrow>
        u_name created = name \<longrightarrow> get_answer s cx name default_get_options w' cl = Inr created)"


text \<open>A member with room for one object: a create replaces what it held.\<close>

definition cell_client :: "(unstructured option, nat) dynamic_client" where
  "cell_client gvr ns =
     (down_client gvr ns)
       \<lparr>ri_Get := (\<lambda>cx name opts m. case m of
          Some obj \<Rightarrow> if u_name obj = name then (Inr obj, m)
            else (Inl (Status (NotFound (GVR_GroupResource gvr) name)), m)
        | None \<Rightarrow> (Inl (Status (NotFound (GVR_GroupResource gvr) name)), m)),
        ri_Create := (\<lambda>cx obj opts m. (Inr obj, Some obj))\<rparr>"




end
