(* ===== verification/Watcher.thy ===== *)
theory Watcher
  imports Writer
begin

text \<open>
  \<open>pkg/apiserver/storage/watcher.go\<close>: the aggregate watch. Opening it is a function
  (\<open>Storage_Watch\<close>: list and watch every selected cluster, stop what is open when one fails). Once
  it runs, its goroutines (the fan-in that sends the initial events and waits for the forwarders,
  one forwarder per cluster, and the closer) and its environment (member clusters, the client, the
  server's \<open>Done\<close> channel, the request context) are an interleaving step relation.
\<close>

section \<open>Opening a watch\<close>

datatype event_type = Added | Modified | Deleted | Bookmark | ErrorEvent

record event =
  ev_type :: event_type
  ev_object :: runtime_object

definition watchListEnabled :: "'sel internal_list_options \<Rightarrow> bool" where
  "watchListEnabled options =
     (ilo_sendInitialEvents options \<noteq> None \<and> the (ilo_sendInitialEvents options) \<and>
      ilo_allowWatchBookmarks options)"

definition watch_options ::
  "('sel, 'req) labels_pkg \<Rightarrow> 'sel internal_list_options \<Rightarrow> 'sel option \<Rightarrow> list_options" where
  "watch_options L options remote =
     no_list_options\<lparr>lo_fieldSelector := fieldSelectorString options, lo_allowWatchBookmarks := False,
       lo_watch := True, lo_labelSelector := remote_selector_string L remote\<rparr>"

text \<open>An open remote watch: the client it was opened with and its handle.\<close>

type_synonym ('w, 'h) remote = "string \<times> ('w, 'h) resource_interface \<times> 'h"

definition stop_all :: "('w, 'h) remote list \<Rightarrow> 'w \<Rightarrow> 'w" where
  "stop_all remotes w = fold (\<lambda>(cluster, client, h). ri_Stop client h) remotes w"

definition watch_list_options :: "list_options \<Rightarrow> bool \<Rightarrow> list_options" where
  "watch_list_options watchOptions enabled =
     no_list_options\<lparr>lo_fieldSelector := lo_fieldSelector watchOptions,
       lo_labelSelector := lo_labelSelector watchOptions, lo_limit := (if enabled then 0 else 1)\<rparr>"

definition added :: "string \<Rightarrow> unstructured \<Rightarrow> event" where
  "added cluster item = \<lparr>ev_type = Added, ev_object = Unstructured (stamp item cluster)\<rparr>"

text \<open>The loop over the selected clusters.\<close>

fun open_remotes ::
  "('w, 'h) storage \<Rightarrow> string \<Rightarrow> ctx \<Rightarrow> list_options \<Rightarrow> bool \<Rightarrow>
   (string \<times> ('w, 'h) dynamic_client) list \<Rightarrow> ('w, 'h) remote list \<Rightarrow> event list
     \<Rightarrow> ('w, ('w, 'h) remote list \<times> event list) io" where
  "open_remotes s namespace watchCtx watchOptions enabled [] remotes initialEvents w =
     (Inr (remotes, initialEvents), w)"
| "open_remotes s namespace watchCtx watchOptions enabled ((cluster, cl) # cs) remotes initialEvents w =
     (let client = Storage_client s cl namespace
      in case ri_List client watchCtx (watch_list_options watchOptions enabled) w of
           (Inl err, w1) \<Rightarrow>
             (Inl (Status (InternalError
                (Wrapf ''resolving current resourceVersion of cluster %q: %w'' [cluster] err))),
              stop_all remotes w1)
         | (Inr list, w1) \<Rightarrow>
             (let initialEvents' = (if enabled then initialEvents @ map (added cluster) (l_items list)
                                    else initialEvents)
              in case ri_Watch client watchCtx
                        (watchOptions\<lparr>lo_resourceVersion := l_resourceVersion list\<rparr>) w1 of
                   (Inl err, w2) \<Rightarrow>
                     (Inl (Status (InternalError (Wrapf ''watching cluster %q: %w'' [cluster] err))),
                      stop_all remotes w2)
                 | (Inr h, w2) \<Rightarrow>
                     open_remotes s namespace watchCtx watchOptions enabled cs
                       (remotes @ [(cluster, client, h)]) initialEvents' w2))"

definition InitialEventsAnnotationKey :: string where
  "InitialEventsAnnotationKey = ''k8s.io/initial-events-end''"

definition initial_bookmark :: "('w, 'h) storage \<Rightarrow> event" where
  "initial_bookmark s =
     \<lparr>ev_type = Bookmark,
      ev_object = Unstructured (empty_unstructured\<lparr>u_gvk := so_Kind (st_opts s), u_resourceVersion := ''0'',
        u_annotations := Some [InitialEventsAnnotationKey \<mapsto> ''true'']\<rparr>)\<rparr>"

section \<open>A running watch\<close>

text \<open>
  Where a goroutine stands. The fan-in goroutine first sends the initial events, then waits for
  the forwarders; a forwarder waits for an event of its cluster or holds one it wants to send; the
  closer waits for the end, stops the remote watches, waits for the fan-in and closes the channel.
\<close>

datatype fan_in = Sending_initial | Forwarding | Finished

datatype forwarder = Idle | Receiving | Holding event | Exited

datatype closer = Waiting | Stopping "string list" | Closed

text \<open>
  \<open>mw_queue\<close> and \<open>mw_ended\<close> are the result channels of the remote watches; \<open>mw_result\<close> is what the
  client has received from the aggregate channel, each event with the cluster it was forwarded
  from (\<open>None\<close> for the initial events), and \<open>mw_emitted\<close> everything a cluster has ever sent. These
  two record the history, the code does not keep it. \<open>mw_panicked\<close>: a send on the closed channel.
\<close>

record multiWatch =
  mw_remotes :: "string list"
  mw_pending :: "event list"
  mw_fanIn :: fan_in
  mw_forward :: "string \<Rightarrow> forwarder"
  mw_closer :: closer
  mw_cancelled :: bool
  mw_done :: bool
  mw_queue :: "string \<Rightarrow> event list"
  mw_ended :: "string \<Rightarrow> bool"
  mw_stopped :: "string set"
  mw_emitted :: "string \<Rightarrow> event list"
  mw_result :: "(string option \<times> event) list"
  mw_panicked :: bool

definition start_watch :: "string list \<Rightarrow> event list \<Rightarrow> multiWatch" where
  "start_watch cs initialEvents =
     \<lparr>mw_remotes = cs, mw_pending = initialEvents, mw_fanIn = Sending_initial,
      mw_forward = (\<lambda>_. Idle), mw_closer = Waiting, mw_cancelled = False, mw_done = False,
      mw_queue = (\<lambda>_. []), mw_ended = (\<lambda>_. False), mw_stopped = {}, mw_emitted = (\<lambda>_. []),
      mw_result = [], mw_panicked = False\<rparr>"

text \<open>
  \<open>Storage.Watch\<close>. Beside the result it tells whether it has cancelled \<open>watchCtx\<close> itself.
\<close>

definition Storage_Watch ::
  "('sel, 'req) labels_pkg \<Rightarrow> ('w, 'h) storage \<Rightarrow> ctx \<Rightarrow> 'sel internal_list_options option
     \<Rightarrow> 'w \<Rightarrow> ((('w, 'h) remote list \<times> multiWatch) result \<times> bool) \<times> 'w" where
  "Storage_Watch L s cx options w =
     (let opts = (case options of None \<Rightarrow> no_internal_list_options | Some o' \<Rightarrow> o')
      in case splitClusterSelector L (ilo_labelSelector opts) of (remote, matches) \<Rightarrow>
        (let enabled = watchListEnabled opts;
             selected = filter (\<lambda>(cluster, cl). matches cluster) (clusters s)
         in case open_remotes s (ctx_namespace cx) cx (watch_options L opts remote) enabled selected [] [] w of
              (Inl err, w') \<Rightarrow> ((Inl err, True), w')
            | (Inr (remotes, initialEvents), w') \<Rightarrow>
                ((Inr (remotes, start_watch (map fst remotes)
                   (if enabled then initialEvents @ [initial_bookmark s] else initialEvents)), False), w')))"

text \<open>\<open>multiWatch.Stop\<close>: the \<open>sync.Once\<close> makes later calls do nothing; cancelling is idempotent too.\<close>

definition multiWatch_Stop :: "multiWatch \<Rightarrow> multiWatch" where
  "multiWatch_Stop m = m\<lparr>mw_cancelled := True\<rparr>"

definition stamp_event :: "string \<Rightarrow> event \<Rightarrow> event" where
  "stamp_event cluster e =
     (case ev_object e of
        Unstructured obj \<Rightarrow> e\<lparr>ev_object := Unstructured (stamp obj cluster)\<rparr>
      | _ \<Rightarrow> e)"

definition exit_forward :: "string \<Rightarrow> multiWatch \<Rightarrow> multiWatch" where
  "exit_forward c m = m\<lparr>mw_forward := (mw_forward m)(c := Exited), mw_cancelled := True\<rparr>"

text \<open>
  The steps of the goroutines. A \<open>select\<close> with several ready cases takes any of them; the deferred
  \<open>cancel\<close> runs when a forwarder returns. Sending an event is a rendezvous with the client, a
  relation of its own since it needs a client that receives.
\<close>

inductive deliver :: "multiWatch \<Rightarrow> multiWatch \<Rightarrow> bool" where
  send_initial: "mw_fanIn m = Sending_initial \<Longrightarrow> mw_pending m = e # es \<Longrightarrow> mw_closer m \<noteq> Closed \<Longrightarrow>
    deliver m (m\<lparr>mw_pending := es, mw_result := mw_result m @ [(None, e)]\<rparr>)"
| send: "mw_forward m c = Holding e \<Longrightarrow> mw_closer m \<noteq> Closed \<Longrightarrow>
    deliver m (m\<lparr>mw_forward := (mw_forward m)(c := Receiving), mw_result := mw_result m @ [(Some c, e)]\<rparr>)"

inductive internal :: "multiWatch \<Rightarrow> multiWatch \<Rightarrow> bool" where
  abort_initial: "mw_fanIn m = Sending_initial \<Longrightarrow> mw_pending m = e # es \<Longrightarrow> mw_cancelled m \<Longrightarrow>
    internal m (m\<lparr>mw_fanIn := Finished\<rparr>)"
| start_forwards: "mw_fanIn m = Sending_initial \<Longrightarrow> mw_pending m = [] \<Longrightarrow>
    internal m (m\<lparr>mw_fanIn := Forwarding,
      mw_forward := (\<lambda>c. if c \<in> set (mw_remotes m) then Receiving else mw_forward m c)\<rparr>)"
| skip_bookmark: "mw_forward m c = Receiving \<Longrightarrow> mw_queue m c = e # es \<Longrightarrow> ev_type e = Bookmark \<Longrightarrow>
    internal m (m\<lparr>mw_queue := (mw_queue m)(c := es)\<rparr>)"
| receive: "mw_forward m c = Receiving \<Longrightarrow> mw_queue m c = e # es \<Longrightarrow> ev_type e \<noteq> Bookmark \<Longrightarrow>
    internal m (m\<lparr>mw_queue := (mw_queue m)(c := es),
      mw_forward := (mw_forward m)(c := Holding (stamp_event c e))\<rparr>)"
| remote_ended: "mw_forward m c = Receiving \<Longrightarrow> mw_queue m c = [] \<Longrightarrow> mw_ended m c \<Longrightarrow>
    internal m (exit_forward c m)"
| stop_receiving: "mw_forward m c = Receiving \<Longrightarrow> mw_cancelled m \<Longrightarrow> internal m (exit_forward c m)"
| stop_sending: "mw_forward m c = Holding e \<Longrightarrow> mw_cancelled m \<Longrightarrow> internal m (exit_forward c m)"
| fan_in_done: "mw_fanIn m = Forwarding \<Longrightarrow> list_all (\<lambda>c. mw_forward m c = Exited) (mw_remotes m) \<Longrightarrow>
    internal m (m\<lparr>mw_fanIn := Finished\<rparr>)"
| wake_cancelled: "mw_closer m = Waiting \<Longrightarrow> mw_cancelled m \<Longrightarrow>
    internal m (m\<lparr>mw_closer := Stopping (mw_remotes m)\<rparr>)"
| wake_done: "mw_closer m = Waiting \<Longrightarrow> mw_done m \<Longrightarrow>
    internal m (m\<lparr>mw_cancelled := True, mw_closer := Stopping (mw_remotes m)\<rparr>)"
| stop_remote: "mw_closer m = Stopping (c # cs) \<Longrightarrow>
    internal m (m\<lparr>mw_closer := Stopping cs, mw_stopped := insert c (mw_stopped m)\<rparr>)"
| close_result: "mw_closer m = Stopping [] \<Longrightarrow> mw_fanIn m = Finished \<Longrightarrow>
    internal m (m\<lparr>mw_closer := Closed\<rparr>)"
| panic_initial: "mw_closer m = Closed \<Longrightarrow> mw_fanIn m = Sending_initial \<Longrightarrow> mw_pending m \<noteq> [] \<Longrightarrow>
    internal m (m\<lparr>mw_panicked := True\<rparr>)"
| panic_forward: "mw_closer m = Closed \<Longrightarrow> mw_forward m c = Holding e \<Longrightarrow>
    internal m (m\<lparr>mw_panicked := True\<rparr>)"

text \<open>The steps of the environment.\<close>

inductive external :: "multiWatch \<Rightarrow> multiWatch \<Rightarrow> bool" where
  remote_event: "\<not> mw_ended m c \<Longrightarrow>
    external m (m\<lparr>mw_queue := (mw_queue m)(c := mw_queue m c @ [e]),
      mw_emitted := (mw_emitted m)(c := mw_emitted m c @ [e])\<rparr>)"
| remote_end: "external m (m\<lparr>mw_ended := (mw_ended m)(c := True)\<rparr>)"
| client_stop: "external m (multiWatch_Stop m)"
| server_done: "external m (m\<lparr>mw_done := True\<rparr>)"
| context_cancelled: "external m (m\<lparr>mw_cancelled := True\<rparr>)"

definition own_step :: "multiWatch \<Rightarrow> multiWatch \<Rightarrow> bool" where
  "own_step m m' \<longleftrightarrow> internal m m' \<or> deliver m m'"

definition watch_step :: "multiWatch \<Rightarrow> multiWatch \<Rightarrow> bool" where
  "watch_step m m' \<longleftrightarrow> own_step m m' \<or> external m m'"

section \<open>Specification\<close>

text \<open>A watch that has just been opened on the clusters \<open>cs\<close>.\<close>

definition opened :: "string list \<Rightarrow> event list \<Rightarrow> multiWatch \<Rightarrow> bool" where
  "opened cs evs m \<longleftrightarrow> m = start_watch cs evs"

text \<open>The remote watches the closer has still to stop.\<close>

definition to_stop :: "string list \<Rightarrow> closer \<Rightarrow> string list" where
  "to_stop cs cl = (case cl of Waiting \<Rightarrow> cs | Stopping cs' \<Rightarrow> cs' | Closed \<Rightarrow> [])"

text \<open>How the phases of the goroutines fit together.\<close>

definition phases :: "multiWatch \<Rightarrow> bool" where
  "phases m \<longleftrightarrow> \<not> mw_panicked m \<and>
     (mw_fanIn m = Sending_initial \<longrightarrow> (\<forall>c. mw_forward m c = Idle)) \<and>
     (mw_fanIn m = Forwarding \<longrightarrow> (\<forall>c. mw_forward m c = Idle \<longleftrightarrow> c \<notin> set (mw_remotes m))) \<and>
     (mw_fanIn m = Finished \<longrightarrow> (\<forall>c. mw_forward m c = Idle \<or> mw_forward m c = Exited)) \<and>
     (\<forall>c. mw_forward m c = Exited \<longrightarrow> mw_cancelled m) \<and>
     (mw_closer m \<noteq> Waiting \<longrightarrow> mw_cancelled m) \<and>
     (mw_closer m = Closed \<longrightarrow> mw_fanIn m = Finished) \<and>
     (mw_fanIn m = Finished \<longrightarrow> mw_cancelled m \<or> mw_remotes m = []) \<and>
     set (mw_remotes m) \<subseteq> mw_stopped m \<union> set (to_stop (mw_remotes m) (mw_closer m))"

text \<open>
  What a cluster's events must become on the aggregate channel: the same events in the same order, less
  the bookmarks, each object marked with the cluster. And the events of a cluster on the channel.
\<close>

definition relayed :: "string \<Rightarrow> event list \<Rightarrow> event list" where
  "relayed c es =
     [\<lparr>ev_type = ev_type e,
       ev_object = (case ev_object e of Unstructured obj \<Rightarrow> Unstructured (stamp obj c) | other \<Rightarrow> other)\<rparr>.
      e \<leftarrow> es, ev_type e \<noteq> Bookmark]"

definition from_cluster :: "string \<Rightarrow> (string option \<times> event) list \<Rightarrow> event list" where
  "from_cluster c res = map snd (filter (\<lambda>(src, e). src = Some c) res)"

definition held :: "forwarder \<Rightarrow> event list" where
  "held f = (case f of Holding e \<Rightarrow> [e] | _ \<Rightarrow> [])"

text \<open>Nothing of a cluster is lost, repeated or reordered.\<close>

definition in_order :: "multiWatch \<Rightarrow> bool" where
  "in_order m \<longleftrightarrow>
     (\<forall>c. (\<exists>rest. relayed c (mw_emitted m c) = from_cluster c (mw_result m) @ rest) \<and>
        (mw_forward m c \<noteq> Exited \<longrightarrow>
           relayed c (mw_emitted m c) =
             from_cluster c (mw_result m) @ held (mw_forward m c) @ relayed c (mw_queue m c)))"

text \<open>The initial events come first, and completely before any other.\<close>

definition initial_first :: "event list \<Rightarrow> multiWatch \<Rightarrow> bool" where
  "initial_first evs m \<longleftrightarrow>
     (\<exists>sent rest. mw_result m = map (Pair None) sent @ rest \<and> None \<notin> set (map fst rest) \<and>
        (\<exists>unsent. evs = sent @ unsent) \<and>
        (mw_fanIn m = Sending_initial \<longrightarrow> rest = [] \<and> evs = sent @ mw_pending m) \<and>
        (mw_fanIn m = Forwarding \<or> rest \<noteq> [] \<longrightarrow> evs = sent))"

section \<open>Lemmas\<close>

lemma relayed_stamp: "relayed c es = map (stamp_event c) (filter (\<lambda>e. ev_type e \<noteq> Bookmark) es)"
  by (induction es) (auto simp: relayed_def stamp_event_def split: runtime_object.splits)

lemma to_stop_simps [simp]:
  "to_stop cs Waiting = cs" "to_stop cs (Stopping cs') = cs'" "to_stop cs Closed = []"
  by (simp_all add: to_stop_def)

lemma phases_active:
  assumes "phases m" and "mw_forward m c = Receiving \<or> mw_forward m c = Holding e"
  shows "mw_fanIn m = Forwarding \<and> c \<in> set (mw_remotes m) \<and> mw_closer m \<noteq> Closed"
proof (cases "mw_fanIn m")
  case Sending_initial
  with assms show ?thesis by (simp add: phases_def)
next
  case Forwarding
  with assms(1) have "mw_forward m c = Idle \<longleftrightarrow> c \<notin> set (mw_remotes m)" and "mw_closer m \<noteq> Closed"
    by (auto simp: phases_def)
  with Forwarding assms(2) show ?thesis by auto
next
  case Finished
  with assms(1) have "mw_forward m c = Idle \<or> mw_forward m c = Exited" by (simp add: phases_def)
  with assms(2) show ?thesis by auto
qed

lemma phases_internal:
  assumes "phases m" and "internal m m'"
  shows "phases m'"
  using assms(2)
proof (cases rule: internal.cases)
  case (receive c e es)
  with assms(1) phases_active [OF assms(1), of c] show ?thesis by (simp add: phases_def) blast
next
  case (remote_ended c)
  with assms(1) phases_active [OF assms(1), of c] show ?thesis by (simp add: phases_def exit_forward_def)
next
  case (stop_receiving c)
  with assms(1) phases_active [OF assms(1), of c] show ?thesis by (simp add: phases_def exit_forward_def)
next
  case (stop_sending c e)
  with assms(1) phases_active [OF assms(1), of c e] show ?thesis by (simp add: phases_def exit_forward_def)
next
  case fan_in_done
  have "mw_cancelled m" if "c \<in> set (mw_remotes m)" for c
    using fan_in_done(3) that assms(1) by (auto simp: list_all_iff phases_def)
  then have "mw_cancelled m \<or> mw_remotes m = []" by (cases "mw_remotes m") auto
  with fan_in_done assms(1) show ?thesis by (simp add: phases_def list_all_iff)
next
  case (panic_forward c e)
  with phases_active [OF assms(1), of c e] show ?thesis by simp
qed (use assms(1) in \<open>simp_all add: phases_def list_all_iff\<close>)

lemma phases_deliver:
  assumes "phases m" and "deliver m m'"
  shows "phases m'"
  using assms(2)
proof (cases rule: deliver.cases)
  case (send_initial e es)
  with assms(1) show ?thesis by (simp add: phases_def)
next
  case (send c e)
  with assms(1) phases_active [OF assms(1), of c e] show ?thesis by (simp add: phases_def) blast
qed

lemma phases_external:
  assumes "phases m" and "external m m'"
  shows "phases m'"
  using assms(2,1) by (cases rule: external.cases) (simp_all add: phases_def multiWatch_Stop_def)

lemma phases_step: "phases m \<Longrightarrow> watch_step m m' \<Longrightarrow> phases m'"
  by (auto simp: watch_step_def own_step_def intro: phases_internal phases_deliver phases_external)

lemma phases_start: "phases (start_watch cs evs)"
  by (simp add: phases_def start_watch_def)

lemma relayed_simps [simp]:
  "relayed c [] = []"
  "relayed c (e # es) = (if ev_type e = Bookmark then relayed c es else stamp_event c e # relayed c es)"
  "relayed c (es @ es') = relayed c es @ relayed c es'"
  by (simp_all add: relayed_stamp)

lemma from_cluster_simps [simp]:
  "from_cluster c [] = []"
  "from_cluster c (res @ [(src, e)]) = from_cluster c res @ (if src = Some c then [e] else [])"
  by (simp_all add: from_cluster_def)

lemma held_simps [simp]:
  "held (Holding e) = [e]" "held Idle = []" "held Receiving = []" "held Exited = []"
  by (simp_all add: held_def)

lemma in_orderI:
  assumes "in_order m"
    and "\<And>c. from_cluster c (mw_result m') = from_cluster c (mw_result m)"
    and "\<And>c. mw_emitted m' c = mw_emitted m c"
    and "\<And>c. mw_forward m' c \<noteq> Exited \<Longrightarrow> mw_forward m c \<noteq> Exited \<and>
           held (mw_forward m' c) @ relayed c (mw_queue m' c) =
           held (mw_forward m c) @ relayed c (mw_queue m c)"
  shows "in_order m'"
  using assms unfolding in_order_def by simp

lemma in_order_internal:
  assumes "in_order m" and "phases m" and "internal m m'"
  shows "in_order m'"
  using assms(3)
proof (cases rule: internal.cases)
  case start_forwards
  with assms(2) show ?thesis by (intro in_orderI [OF assms(1)]) (simp_all add: phases_def)
qed (intro in_orderI [OF assms(1)]; simp add: exit_forward_def split: if_splits; fail)+

lemma in_order_deliver:
  assumes "in_order m" and "deliver m m'"
  shows "in_order m'"
  using assms(2)
proof (cases rule: deliver.cases)
  case (send_initial e es)
  then show ?thesis by (intro in_orderI [OF assms(1)]) simp_all
next
  case (send c e)
  have "relayed c' (mw_emitted m' c') = from_cluster c' (mw_result m') @ held (mw_forward m' c') @
      relayed c' (mw_queue m' c')" if "mw_forward m' c' \<noteq> Exited" for c'
    using assms(1) send that unfolding in_order_def by (cases "c' = c") auto
  moreover have "\<exists>rest. relayed c' (mw_emitted m' c') = from_cluster c' (mw_result m') @ rest" for c'
  proof (cases "c' = c")
    case True
    with calculation [of c] send show ?thesis by auto
  next
    case False
    with assms(1) send show ?thesis by (auto simp: in_order_def)
  qed
  ultimately show ?thesis by (simp add: in_order_def)
qed

lemma in_order_external:
  assumes "in_order m" and "external m m'"
  shows "in_order m'"
  using assms(2)
proof (cases rule: external.cases)
  case (remote_event c e)
  from assms(1) obtain rest where "relayed c (mw_emitted m c) = from_cluster c (mw_result m) @ rest"
    by (auto simp: in_order_def)
  then have "\<exists>rest. relayed c (mw_emitted m c @ [e]) = from_cluster c (mw_result m) @ rest" by simp
  with remote_event assms(1) show ?thesis by (auto simp: in_order_def)
qed (use assms(1) in \<open>simp_all add: in_order_def multiWatch_Stop_def\<close>)

lemma in_order_start: "in_order (start_watch cs evs)"
  by (simp add: in_order_def start_watch_def)

lemma initial_firstI:
  assumes "mw_result m = map (Pair None) sent @ rest" and "None \<notin> set (map fst rest)" and "evs = sent @ unsent"
    and "mw_fanIn m = Sending_initial \<Longrightarrow> rest = [] \<and> evs = sent @ mw_pending m"
    and "mw_fanIn m = Forwarding \<or> rest \<noteq> [] \<Longrightarrow> evs = sent"
  shows "initial_first evs m"
  unfolding initial_first_def using assms by blast

lemma initial_firstE:
  assumes "initial_first evs m"
  obtains sent rest unsent where "mw_result m = map (Pair None) sent @ rest" and "None \<notin> set (map fst rest)"
    and "evs = sent @ unsent"
    and "mw_fanIn m = Sending_initial \<Longrightarrow> rest = [] \<and> evs = sent @ mw_pending m"
    and "mw_fanIn m = Forwarding \<or> rest \<noteq> [] \<Longrightarrow> evs = sent"
  using assms unfolding initial_first_def by blast

lemma initial_first_internal:
  assumes "initial_first evs m" and "internal m m'"
  shows "initial_first evs m'"
proof -
  obtain sent rest unsent where *: "mw_result m = map (Pair None) sent @ rest" "None \<notin> set (map fst rest)"
    "evs = sent @ unsent"
    "mw_fanIn m = Sending_initial \<Longrightarrow> rest = [] \<and> evs = sent @ mw_pending m"
    "mw_fanIn m = Forwarding \<or> rest \<noteq> [] \<Longrightarrow> evs = sent" using initial_firstE [OF assms(1)] by metis
  have "mw_result m' = mw_result m \<and> mw_pending m' = mw_pending m \<and>
      (mw_fanIn m' = mw_fanIn m \<or> mw_fanIn m' = Finished \<or>
       mw_fanIn m' = Forwarding \<and> mw_fanIn m = Sending_initial \<and> mw_pending m = [])"
    using assms(2) by (cases rule: internal.cases) (simp_all add: exit_forward_def)
  with * show ?thesis by (intro initial_firstI [of _ sent rest evs unsent]) auto
qed

lemma initial_first_external:
  assumes "initial_first evs m" and "external m m'"
  shows "initial_first evs m'"
  using assms(2,1) by (cases rule: external.cases) (simp_all add: initial_first_def multiWatch_Stop_def)

lemma initial_first_deliver:
  assumes "initial_first evs m" and "phases m" and "deliver m m'"
  shows "initial_first evs m'"
proof -
  obtain sent rest unsent where *: "mw_result m = map (Pair None) sent @ rest" "None \<notin> set (map fst rest)"
    "evs = sent @ unsent"
    "mw_fanIn m = Sending_initial \<Longrightarrow> rest = [] \<and> evs = sent @ mw_pending m"
    "mw_fanIn m = Forwarding \<or> rest \<noteq> [] \<Longrightarrow> evs = sent" using initial_firstE [OF assms(1)] by metis
  from assms(3) show ?thesis
  proof (cases rule: deliver.cases)
    case (send_initial e es)
    with * show ?thesis by (intro initial_firstI [of _ "sent @ [e]" "[]" evs es]) auto
  next
    case (send c e)
    with phases_active [OF assms(2), of c e] have "mw_fanIn m = Forwarding" by simp
    with * send show ?thesis by (intro initial_firstI [of _ sent "rest @ [(Some c, e)]" evs unsent]) auto
  qed
qed

lemma initial_first_start: "initial_first evs (start_watch cs evs)"
  by (rule initial_firstI [of _ "[]" "[]" evs evs]) (simp_all add: start_watch_def)

lemma watch_step_remotes: "watch_step m m' \<Longrightarrow> mw_remotes m' = mw_remotes m"
  by (auto simp: watch_step_def own_step_def exit_forward_def multiWatch_Stop_def
      elim!: internal.cases deliver.cases external.cases)

text \<open>Everything that holds of a watch opened on \<open>cs\<close> with the initial events \<open>evs\<close>.\<close>

definition watch_ok :: "string list \<Rightarrow> event list \<Rightarrow> multiWatch \<Rightarrow> bool" where
  "watch_ok cs evs m \<longleftrightarrow> mw_remotes m = cs \<and> phases m \<and> in_order m \<and> initial_first evs m"

interpretation watch: inductive_invariant "opened cs evs" watch_step "watch_ok cs evs"
  for cs evs
proof unfold_locales
  show "watch_ok cs evs m" if "opened cs evs m" for m
    using that by (simp add: opened_def watch_ok_def phases_start in_order_start initial_first_start)
      (simp add: start_watch_def)
  show "watch_ok cs evs m'" if "watch_ok cs evs m" and "watch_step m m'" for m m'
    using that watch_step_remotes [OF that(2)] phases_step [OF _ that(2)]
    by (auto simp: watch_ok_def watch_step_def own_step_def
        intro: in_order_internal in_order_deliver in_order_external
          initial_first_internal initial_first_deliver initial_first_external)
qed

lemma watch_reached: "watch_step\<^sup>*\<^sup>* (start_watch cs evs) m \<Longrightarrow> watch_ok cs evs m"
  by (rule watch.reached_invar) (simp_all add: opened_def)

subsection \<open>Progress\<close>

lemma winding_down_progress:
  assumes "phases m" and "mw_cancelled m \<or> mw_done m" and "mw_closer m \<noteq> Closed"
  shows "\<exists>m'. internal m m'"
proof (cases "mw_closer m")
  case Waiting
  with assms(2) show ?thesis by (blast intro: wake_cancelled wake_done)
next
  case (Stopping cs)
  with assms(1) have cancelled: "mw_cancelled m" by (simp add: phases_def)
  show ?thesis
  proof (cases cs)
    case (Cons c cs')
    with Stopping show ?thesis by (blast intro: stop_remote)
  next
    case Nil
    show ?thesis
    proof (cases "mw_fanIn m")
      case Sending_initial
      with cancelled show ?thesis
        by (cases "mw_pending m") (blast intro: start_forwards abort_initial)+
    next
      case Forwarding
      show ?thesis
      proof (cases "list_all (\<lambda>c. mw_forward m c = Exited) (mw_remotes m)")
        case True
        with Forwarding show ?thesis by (blast intro: fan_in_done)
      next
        case False
        then obtain c where "c \<in> set (mw_remotes m)" "mw_forward m c \<noteq> Exited" by (auto simp: list_all_iff)
        moreover from this Forwarding assms(1) have "mw_forward m c \<noteq> Idle" by (simp add: phases_def)
        ultimately show ?thesis using cancelled
          by (cases "mw_forward m c") (blast intro: stop_receiving stop_sending)+
      qed
    next
      case Finished
      with Stopping Nil show ?thesis by (blast intro: close_result)
    qed
  qed
qed (use assms(3) in simp)

definition forward_weight :: "forwarder \<Rightarrow> nat" where
  "forward_weight f = (case f of Idle \<Rightarrow> 0 | Receiving \<Rightarrow> 1 | Holding e \<Rightarrow> 2 | Exited \<Rightarrow> 0)"

definition fan_in_weight :: "string list \<Rightarrow> fan_in \<Rightarrow> nat" where
  "fan_in_weight cs f = (case f of Sending_initial \<Rightarrow> length cs + 2 | Forwarding \<Rightarrow> 1 | Finished \<Rightarrow> 0)"

definition closer_weight :: "string list \<Rightarrow> closer \<Rightarrow> nat" where
  "closer_weight cs cl = (case cl of Waiting \<Rightarrow> length cs + 2 | Stopping cs' \<Rightarrow> length cs' + 1 | Closed \<Rightarrow> 0)"

text \<open>How many steps the watch can still take on its own.\<close>

definition weight :: "multiWatch \<Rightarrow> nat" where
  "weight m = length (mw_pending m) + fan_in_weight (mw_remotes m) (mw_fanIn m) +
     (\<Sum>c \<in> set (mw_remotes m). forward_weight (mw_forward m c) + 2 * length (mw_queue m c)) +
     closer_weight (mw_remotes m) (mw_closer m)"

lemma weight_simps [simp]:
  "forward_weight Idle = 0" "forward_weight Receiving = 1" "forward_weight (Holding e) = 2"
  "forward_weight Exited = 0"
  "fan_in_weight cs Sending_initial = length cs + 2" "fan_in_weight cs Forwarding = 1"
  "fan_in_weight cs Finished = 0"
  "closer_weight cs Waiting = length cs + 2" "closer_weight cs (Stopping cs') = length cs' + 1"
  "closer_weight cs Closed = 0"
  by (simp_all add: forward_weight_def fan_in_weight_def closer_weight_def)

lemma sum_less_at:
  fixes f g :: "'a \<Rightarrow> nat"
  assumes "finite A" and "c \<in> A" and "f c < g c" and "\<And>x. x \<in> A \<Longrightarrow> x \<noteq> c \<Longrightarrow> f x = g x"
  shows "sum f A < sum g A"
  by (rule sum_strict_mono_ex1) (use assms in \<open>auto simp: le_less\<close>)

lemma weight_at:
  assumes "c \<in> set (mw_remotes m)" and "mw_remotes m' = mw_remotes m" and "mw_pending m' = mw_pending m"
    and "mw_fanIn m' = mw_fanIn m" and "mw_closer m' = mw_closer m"
    and "forward_weight (mw_forward m' c) + 2 * length (mw_queue m' c) <
      forward_weight (mw_forward m c) + 2 * length (mw_queue m c)"
    and "\<And>d. d \<noteq> c \<Longrightarrow> mw_forward m' d = mw_forward m d \<and> mw_queue m' d = mw_queue m d"
  shows "weight m' < weight m"
proof -
  have "(\<Sum>d \<in> set (mw_remotes m). forward_weight (mw_forward m' d) + 2 * length (mw_queue m' d)) <
      (\<Sum>d \<in> set (mw_remotes m). forward_weight (mw_forward m d) + 2 * length (mw_queue m d))"
    by (rule sum_less_at [of _ c]) (simp_all add: assms)
  then show ?thesis by (simp add: weight_def assms(2-5))
qed

lemma weight_internal:
  assumes "phases m" and "internal m m'"
  shows "weight m' < weight m"
  using assms(2)
proof (cases rule: internal.cases)
  case start_forwards
  with assms(1) have idle: "mw_forward m c = Idle" for c by (simp add: phases_def)
  have "(\<Sum>c \<in> set (mw_remotes m). 1 + 2 * length (mw_queue m c)) \<le>
      length (mw_remotes m) + (\<Sum>c \<in> set (mw_remotes m). 2 * length (mw_queue m c))"
    unfolding sum.distrib by (simp add: card_length)
  with start_forwards show ?thesis by (simp add: weight_def idle)
next
  case (skip_bookmark c e es)
  with phases_active [OF assms(1), of c] show ?thesis by (intro weight_at [of c]) auto
next
  case (receive c e es)
  with phases_active [OF assms(1), of c] show ?thesis by (intro weight_at [of c]) auto
next
  case (remote_ended c)
  with phases_active [OF assms(1), of c] show ?thesis
    by (intro weight_at [of c]) (auto simp: exit_forward_def)
next
  case (stop_receiving c)
  with phases_active [OF assms(1), of c] show ?thesis
    by (intro weight_at [of c]) (auto simp: exit_forward_def)
next
  case (stop_sending c e)
  with phases_active [OF assms(1), of c e] show ?thesis
    by (intro weight_at [of c]) (auto simp: exit_forward_def)
next
  case panic_initial
  with assms(1) show ?thesis by (simp add: phases_def)
next
  case (panic_forward c e)
  with phases_active [OF assms(1), of c e] show ?thesis by simp
qed (simp_all add: weight_def)

lemma weight_deliver:
  assumes "phases m" and "deliver m m'"
  shows "weight m' < weight m"
  using assms(2)
proof (cases rule: deliver.cases)
  case (send c e)
  with phases_active [OF assms(1), of c e] show ?thesis by (intro weight_at [of c]) auto
qed (simp add: weight_def)

lemma own_step_weight: "phases m \<Longrightarrow> own_step m m' \<Longrightarrow> weight m' < weight m"
  by (auto simp: own_step_def weight_internal weight_deliver)

lemma own_step_ending:
  "own_step m m' \<Longrightarrow> mw_cancelled m \<or> mw_done m \<Longrightarrow> mw_cancelled m' \<or> mw_done m'"
  by (auto simp: own_step_def exit_forward_def elim!: internal.cases deliver.cases)

lemma own_steps:
  assumes "phases m" and "(own_step ^^ n) m m'"
  shows "phases m' \<and> n + weight m' \<le> weight m \<and>
    (mw_cancelled m \<or> mw_done m \<longrightarrow> mw_cancelled m' \<or> mw_done m') \<and> mw_remotes m' = mw_remotes m"
  using assms(2)
proof (induction n arbitrary: m')
  case 0
  with assms(1) show ?case by simp
next
  case (Suc n)
  then obtain m1 where "(own_step ^^ n) m m1" and step: "own_step m1 m'" by auto
  with Suc.IH have IH: "phases m1 \<and> n + weight m1 \<le> weight m \<and>
    (mw_cancelled m \<or> mw_done m \<longrightarrow> mw_cancelled m1 \<or> mw_done m1) \<and> mw_remotes m1 = mw_remotes m" by blast
  have ws: "watch_step m1 m'" using step by (simp add: watch_step_def)
  from IH phases_step [OF _ ws] own_step_weight [OF _ step] own_step_ending [OF step] watch_step_remotes [OF ws]
  show ?case by auto
qed

lemma watch_steps:
  "internal m m' \<Longrightarrow> watch_step m m'" "deliver m m' \<Longrightarrow> watch_step m m'" "external m m' \<Longrightarrow> watch_step m m'"
  by (simp_all add: watch_step_def own_step_def)

subsection \<open>Opening\<close>

text \<open>
  What a member's watch interface promises, over the set of watches that are open: listing opens
  none, a failed \<open>Watch\<close> neither, a successful one opens one new watch, and \<open>Stop\<close> closes it.
\<close>

definition watch_laws :: "('w \<Rightarrow> 'h set) \<Rightarrow> ('w, 'h) storage \<Rightarrow> string \<Rightarrow> bool" where
  "watch_laws live s namespace \<longleftrightarrow>
     (\<forall>(c, cl) \<in> set (clusters s). let client = Storage_client s cl namespace in
        (\<forall>cx opts w. live (snd (ri_List client cx opts w)) = live w) \<and>
        (\<forall>cx opts w. case ri_Watch client cx opts w of
             (Inl err, w') \<Rightarrow> live w' = live w
           | (Inr h, w') \<Rightarrow> h \<notin> live w \<and> live w' = insert h (live w)) \<and>
        (\<forall>h w. live (ri_Stop client h w) = live w - {h}))"

text \<open>
  How the watch on one cluster was opened: at the resource version of a list of the same objects,
  whose items are among the initial events when these are wanted.
\<close>

definition established ::
  "('w, 'h) storage \<Rightarrow> string \<Rightarrow> ctx \<Rightarrow> list_options \<Rightarrow> bool \<Rightarrow> ('w, 'h) remote list \<Rightarrow> event list
     \<Rightarrow> string \<times> ('w, 'h) dynamic_client \<Rightarrow> bool" where
  "established s namespace cx wo enabled remotes evs t \<longleftrightarrow>
     (case t of (c, cl) \<Rightarrow> \<exists>w1 list w2 h w3.
        ri_List (Storage_client s cl namespace) cx (watch_list_options wo enabled) w1 = (Inr list, w2) \<and>
        ri_Watch (Storage_client s cl namespace) cx (wo\<lparr>lo_resourceVersion := l_resourceVersion list\<rparr>) w2 =
          (Inr h, w3) \<and>
        (c, Storage_client s cl namespace, h) \<in> set remotes \<and>
        (enabled \<longrightarrow> added c ` set (l_items list) \<subseteq> set evs))"

definition handles :: "('w, 'h) remote list \<Rightarrow> 'h set" where
  "handles remotes = (\<lambda>(c, client, h). h) ` set remotes"

definition remote_of :: "('w, 'h) storage \<Rightarrow> string \<Rightarrow> ('w, 'h) remote \<Rightarrow> bool" where
  "remote_of s namespace r \<longleftrightarrow>
     (\<exists>c cl h. (c, cl) \<in> set (clusters s) \<and> r = (c, Storage_client s cl namespace, h))"

lemma watch_lawsD:
  assumes "watch_laws live s namespace" and "(c, cl) \<in> set (clusters s)"
  shows "live (snd (ri_List (Storage_client s cl namespace) cx opts w)) = live w"
    and "case ri_Watch (Storage_client s cl namespace) cx opts w of
           (Inl err, w') \<Rightarrow> live w' = live w
         | (Inr h, w') \<Rightarrow> h \<notin> live w \<and> live w' = insert h (live w)"
    and "live (ri_Stop (Storage_client s cl namespace) h w) = live w - {h}"
proof -
  note laws = bspec [OF assms(1) [unfolded watch_laws_def] assms(2), unfolded prod.case Let_def]
  show "live (snd (ri_List (Storage_client s cl namespace) cx opts w)) = live w"
    using laws [THEN conjunct1] by blast
  show "case ri_Watch (Storage_client s cl namespace) cx opts w of
           (Inl err, w') \<Rightarrow> live w' = live w
         | (Inr h, w') \<Rightarrow> h \<notin> live w \<and> live w' = insert h (live w)"
    by (rule laws [THEN conjunct2, THEN conjunct1, THEN spec, THEN spec, THEN spec])
  show "live (ri_Stop (Storage_client s cl namespace) h w) = live w - {h}"
    using laws [THEN conjunct2, THEN conjunct2] by blast
qed

lemma stop_all_live:
  assumes "watch_laws live s namespace" and "\<forall>r \<in> set remotes. remote_of s namespace r"
  shows "live (stop_all remotes w) = live w - handles remotes"
  using assms(2)
proof (induction remotes arbitrary: w)
  case Nil
  then show ?case by (simp add: stop_all_def handles_def)
next
  case (Cons r remotes)
  then obtain c cl h where r: "r = (c, Storage_client s cl namespace, h)" and "(c, cl) \<in> set (clusters s)"
    by (auto simp: remote_of_def)
  then have "live (ri_Stop (Storage_client s cl namespace) h w) = live w - {h}"
    by (intro watch_lawsD(3) [OF assms(1)])
  with Cons r show ?case by (auto simp: stop_all_def handles_def)
qed

lemma open_remotes_live:
  assumes "watch_laws live s namespace" and "set cs \<subseteq> set (clusters s)"
    and "\<forall>r \<in> set remotes. remote_of s namespace r" and "live w = base \<union> handles remotes"
    and "base \<inter> handles remotes = {}"
    and "open_remotes s namespace cx wo enabled cs remotes evs w = (res, w')"
  shows "case res of
      Inl err \<Rightarrow> live w' = base \<and> IsInternalError err
    | Inr (remotes', evs') \<Rightarrow> live w' = base \<union> handles remotes' \<and> base \<inter> handles remotes' = {} \<and>
        map fst remotes' = map fst remotes @ map fst cs"
  using assms(2-)
proof (induction cs arbitrary: remotes evs w)
  case Nil
  then show ?case by auto
next
  case (Cons t cs)
  obtain c cl where t: "t = (c, cl)" by fastforce
  let ?client = "Storage_client s cl namespace"
  from Cons.prems(1) t have mem: "(c, cl) \<in> set (clusters s)" by simp
  obtain lres w1 where l: "ri_List ?client cx (watch_list_options wo enabled) w = (lres, w1)" by fastforce
  have "live (snd (ri_List ?client cx (watch_list_options wo enabled) w)) = live w"
    by (rule watch_lawsD(1) [OF assms(1) mem])
  with l have w1: "live w1 = base \<union> handles remotes" using Cons.prems(3) by simp
  have stop: "live (stop_all remotes v) = base" if "live v = base \<union> handles remotes" for v
    using stop_all_live [OF assms(1) Cons.prems(2), of v] that Cons.prems(4) by auto
  show ?case
  proof (cases lres)
    case (Inl err)
    with Cons.prems(5) t l stop [OF w1] show ?thesis by (auto simp: Let_def)
  next
    case (Inr list)
    let ?wo = "wo\<lparr>lo_resourceVersion := l_resourceVersion list\<rparr>"
    obtain wres w2 where wa: "ri_Watch ?client cx ?wo w1 = (wres, w2)" by fastforce
    have law: "case ri_Watch ?client cx ?wo w1 of (Inl err, w') \<Rightarrow> live w' = live w1
        | (Inr h, w') \<Rightarrow> h \<notin> live w1 \<and> live w' = insert h (live w1)"
      by (rule watch_lawsD(2) [OF assms(1) mem])
    show ?thesis
    proof (cases wres)
      case (Inl err)
      with law wa w1 have "live w2 = base \<union> handles remotes" by simp
      from stop [OF this] Cons.prems(5) t l Inr wa Inl show ?thesis by (auto simp: Let_def)
    next
      case (Inr h)
      let ?rs = "remotes @ [(c, ?client, h)]"
      let ?evs = "if enabled then evs @ map (added c) (l_items list) else evs"
      have w2: "live w2 = base \<union> handles ?rs" and "base \<inter> handles ?rs = {}"
        using law wa w1 Inr Cons.prems(4) by (auto simp: handles_def)
      moreover have "\<forall>r \<in> set ?rs. remote_of s namespace r" using Cons.prems(2) mem by (auto simp: remote_of_def)
      moreover have "open_remotes s namespace cx wo enabled cs ?rs ?evs w2 = (res, w')"
        using Cons.prems(5) t l wa \<open>lres = Inr list\<close> Inr by (simp add: Let_def)
      ultimately have "case res of Inl err \<Rightarrow> live w' = base \<and> IsInternalError err
        | Inr (remotes', evs') \<Rightarrow> live w' = base \<union> handles remotes' \<and> base \<inter> handles remotes' = {} \<and>
          map fst remotes' = map fst ?rs @ map fst cs"
        using Cons.IH [of ?rs w2 ?evs] Cons.prems(1) by simp
      then show ?thesis using t by (auto split: sum.splits)
    qed
  qed
qed

lemma open_remotes_success:
  assumes "open_remotes s namespace cx wo enabled cs remotes evs w = (Inr (remotes', evs'), w')"
  shows "(\<exists>more. evs' = evs @ more \<and> (\<not> enabled \<longrightarrow> more = [])) \<and> set remotes \<subseteq> set remotes' \<and>
    (\<forall>t \<in> set cs. established s namespace cx wo enabled remotes' evs' t)"
  using assms
proof (induction cs arbitrary: remotes evs w)
  case Nil
  then show ?case by auto
next
  case (Cons t cs)
  obtain c cl where t: "t = (c, cl)" by fastforce
  let ?client = "Storage_client s cl namespace"
  from Cons.prems t obtain list w1 h w2 where
    l: "ri_List ?client cx (watch_list_options wo enabled) w = (Inr list, w1)"
    and wa: "ri_Watch ?client cx (wo\<lparr>lo_resourceVersion := l_resourceVersion list\<rparr>) w1 = (Inr h, w2)"
    and rest: "open_remotes s namespace cx wo enabled cs (remotes @ [(c, ?client, h)])
      (if enabled then evs @ map (added c) (l_items list) else evs) w2 = (Inr (remotes', evs'), w')"
    by (auto simp: Let_def split: prod.splits sum.splits)
  from Cons.IH [OF rest] have ih: "\<exists>more. evs' = (if enabled then evs @ map (added c) (l_items list) else evs) @ more \<and>
      (\<not> enabled \<longrightarrow> more = [])" and sub: "set (remotes @ [(c, ?client, h)]) \<subseteq> set remotes'"
    and others: "\<forall>t \<in> set cs. established s namespace cx wo enabled remotes' evs' t" by blast+
  have incl: "enabled \<longrightarrow> added c ` set (l_items list) \<subseteq> set evs'"
    and ext: "\<exists>more. evs' = evs @ more \<and> (\<not> enabled \<longrightarrow> more = [])"
    using ih by auto
  have "established s namespace cx wo enabled remotes' evs' t"
    unfolding established_def t prod.case using l wa incl sub by (intro exI conjI) auto
  with ext sub others show ?case by auto
qed

lemma winds_down:
  assumes "watch_step\<^sup>*\<^sup>* (start_watch cs evs) m" and "mw_cancelled m \<or> mw_done m" and "(own_step ^^ n) m m'"
  shows "n \<le> weight m \<and> ((\<exists>m''. internal m' m'') \<or> mw_closer m' = Closed \<and> set cs \<subseteq> mw_stopped m')"
proof -
  from watch_reached [OF assms(1)] have ok: "phases m" "mw_remotes m = cs" by (simp_all add: watch_ok_def)
  from own_steps [OF ok(1) assms(3)] assms(2) ok(2) have
    "phases m'" "n + weight m' \<le> weight m" "mw_cancelled m' \<or> mw_done m'" "mw_remotes m' = cs" by simp_all
  moreover have "set cs \<subseteq> mw_stopped m'" if "mw_closer m' = Closed"
    using that \<open>phases m'\<close> \<open>mw_remotes m' = cs\<close> by (simp add: phases_def)
  moreover have "\<exists>m''. internal m' m''" if "mw_closer m' \<noteq> Closed"
    using winding_down_progress [OF \<open>phases m'\<close> \<open>mw_cancelled m' \<or> mw_done m'\<close> that] .
  ultimately show ?thesis by (cases "mw_closer m' = Closed") auto
qed

section \<open>Properties\<close>

text \<open>
  C17. The aggregate channel is used safely in every interleaving: nothing is ever sent on it after it
  was closed, and when it has been closed every remote watch has been stopped and every goroutine
  of the watch is over, with the context cancelled.
\<close>

theorem watch_channel_safe:
  assumes "watch_step\<^sup>*\<^sup>* (start_watch cs evs) m"
  shows "\<not> mw_panicked m \<and>
    (mw_closer m = Closed \<longrightarrow> mw_cancelled m \<and> mw_fanIn m = Finished \<and> set cs \<subseteq> mw_stopped m \<and>
       (\<forall>c. mw_forward m c = Idle \<or> mw_forward m c = Exited))"
  using watch_reached [OF assms] by (auto simp: watch_ok_def phases_def)

text \<open>A run that delivers one event of the cluster east and is then stopped by the client.\<close>

definition web_added :: event where
  "web_added = \<lparr>ev_type = Added, ev_object = Unstructured (demo_object ''web'')\<rparr>"

definition forwarding :: multiWatch where
  "forwarding = (start_watch [''east''] [])\<lparr>mw_fanIn := Forwarding,
     mw_forward := (\<lambda>_. Idle)(''east'' := Receiving)\<rparr>"

definition delivered :: multiWatch where
  "delivered = forwarding\<lparr>mw_emitted := (\<lambda>_. [])(''east'' := [web_added]),
     mw_result := [(Some ''east'', stamp_event ''east'' web_added)]\<rparr>"

lemma run_forwarding: "watch_step\<^sup>*\<^sup>* (start_watch [''east''] []) forwarding"
proof -
  let ?m = "start_watch [''east''] []"
  have "internal ?m (?m\<lparr>mw_fanIn := Forwarding,
      mw_forward := (\<lambda>c. if c \<in> set (mw_remotes ?m) then Receiving else mw_forward ?m c)\<rparr>)"
    by (rule start_forwards) (simp_all add: start_watch_def)
  moreover have "(\<lambda>c. if c \<in> set (mw_remotes ?m) then Receiving else mw_forward ?m c) =
      (\<lambda>_. Idle)(''east'' := Receiving)" by (auto simp: start_watch_def)
  ultimately show ?thesis by (auto simp: forwarding_def watch_step_def own_step_def)
qed

lemma run_delivered: "watch_step\<^sup>*\<^sup>* (start_watch [''east''] []) delivered"
proof -
  let ?m1 = "forwarding\<lparr>mw_queue := (mw_queue forwarding)(''east'' := mw_queue forwarding ''east'' @ [web_added]),
      mw_emitted := (mw_emitted forwarding)(''east'' := mw_emitted forwarding ''east'' @ [web_added])\<rparr>"
  let ?m2 = "?m1\<lparr>mw_queue := (mw_queue ?m1)(''east'' := []),
      mw_forward := (mw_forward ?m1)(''east'' := Holding (stamp_event ''east'' web_added))\<rparr>"
  let ?m3 = "?m2\<lparr>mw_forward := (mw_forward ?m2)(''east'' := Receiving),
      mw_result := mw_result ?m2 @ [(Some ''east'', stamp_event ''east'' web_added)]\<rparr>"
  have "watch_step forwarding ?m1"
    by (rule watch_steps(3), rule remote_event) (simp add: forwarding_def start_watch_def)
  with run_forwarding have r1: "watch_step\<^sup>*\<^sup>* (start_watch [''east''] []) ?m1"
    by (rule rtranclp.rtrancl_into_rtrancl)
  have "watch_step ?m1 ?m2"
    by (rule watch_steps(1), rule receive [where e = web_added])
      (simp_all add: forwarding_def start_watch_def web_added_def)
  with r1 have r2: "watch_step\<^sup>*\<^sup>* (start_watch [''east''] []) ?m2" by (rule rtranclp.rtrancl_into_rtrancl)
  have "watch_step ?m2 ?m3"
    by (rule watch_steps(2), rule send) (simp_all add: forwarding_def start_watch_def)
  with r2 have r3: "watch_step\<^sup>*\<^sup>* (start_watch [''east''] []) ?m3" by (rule rtranclp.rtrancl_into_rtrancl)
  have "?m3 = delivered" by (simp add: delivered_def forwarding_def start_watch_def fun_upd_idem)
  with r3 show ?thesis by (simp only:)
qed

theorem watch_channel_safe_witness: "\<not> mw_panicked delivered"
  using watch_channel_safe [OF run_delivered] by (rule conjunct1)

text \<open>
  C3. The client sees a faithful merge in every interleaving. The initial events come first, in
  order, and none of the live events before all of them. Of each cluster it sees a prefix of the
  events that cluster has sent, in order, without the cluster's bookmarks, every object marked with
  the cluster; nothing is repeated or invented, and nothing has been dropped between them.
\<close>

theorem watch_stream_faithful:
  assumes "watch_step\<^sup>*\<^sup>* (start_watch cs evs) m"
  shows "(\<exists>sent rest. mw_result m = map (Pair None) sent @ rest \<and> None \<notin> set (map fst rest) \<and>
      (\<exists>unsent. evs = sent @ unsent) \<and> (rest \<noteq> [] \<longrightarrow> evs = sent)) \<and>
    (\<forall>c. \<exists>unseen. relayed c (mw_emitted m c) = from_cluster c (mw_result m) @ unseen)"
proof
  from watch_reached [OF assms] have "initial_first evs m" and io: "in_order m" by (simp_all add: watch_ok_def)
  then show "\<exists>sent rest. mw_result m = map (Pair None) sent @ rest \<and> None \<notin> set (map fst rest) \<and>
      (\<exists>unsent. evs = sent @ unsent) \<and> (rest \<noteq> [] \<longrightarrow> evs = sent)"
    unfolding initial_first_def by blast
  from io show "\<forall>c. \<exists>unseen. relayed c (mw_emitted m c) = from_cluster c (mw_result m) @ unseen"
    by (simp add: in_order_def)
qed

theorem watch_stream_faithful_witness:
  "\<exists>unseen. relayed ''east'' (mw_emitted delivered ''east'') = from_cluster ''east'' (mw_result delivered) @ unseen"
  using watch_stream_faithful [OF run_delivered] by blast

text \<open>
  C22. A watch that is to end does end, whether or not the client still reads: once the context is
  cancelled (by the client, the request, or a forwarder that returned) or the server is done, only
  boundedly many steps of its own are left, and until the channel is closed and every remote watch
  stopped there is a step that does not need the client.
\<close>

theorem watch_winds_down:
  assumes "watch_step\<^sup>*\<^sup>* (start_watch cs evs) m" and "mw_cancelled m \<or> mw_done m" and "(own_step ^^ n) m m'"
  shows "n \<le> weight m \<and> ((\<exists>m''. internal m' m'') \<or> mw_closer m' = Closed \<and> set cs \<subseteq> mw_stopped m')"
  using assms by (rule winds_down)

theorem watch_winds_down_witness:
  "\<exists>m''. internal (multiWatch_Stop delivered) m''"
proof -
  have "watch_step delivered (multiWatch_Stop delivered)" by (rule watch_steps(3), rule client_stop)
  with run_delivered have "watch_step\<^sup>*\<^sup>* (start_watch [''east''] []) (multiWatch_Stop delivered)"
    by (rule rtranclp.rtrancl_into_rtrancl)
  moreover have "mw_cancelled (multiWatch_Stop delivered)" and "mw_closer (multiWatch_Stop delivered) \<noteq> Closed"
    by (simp_all add: multiWatch_Stop_def delivered_def forwarding_def start_watch_def)
  moreover have "(own_step ^^ 0) (multiWatch_Stop delivered) (multiWatch_Stop delivered)" by simp
  ultimately show ?thesis using watch_winds_down [of "[''east'']" "[]" "multiWatch_Stop delivered" 0] by blast
qed

text \<open>
  A watch never goes stale: when nothing is left that it could do by itself, either it has closed
  its channel, or it is waiting for events of every one of its clusters, no cluster's stream has
  ended, and the client has received everything every cluster has sent.
\<close>

theorem watch_never_stale:
  assumes "watch_step\<^sup>*\<^sup>* (start_watch cs evs) m" and "\<nexists>m'. own_step m m'" and "mw_closer m \<noteq> Closed"
  shows "\<not> mw_cancelled m \<and> \<not> mw_done m \<and>
    (\<forall>c \<in> set cs. mw_forward m c = Receiving \<and> \<not> mw_ended m c \<and>
       from_cluster c (mw_result m) = relayed c (mw_emitted m c))"
proof -
  from watch_reached [OF assms(1)] have ok: "phases m" "in_order m" "mw_remotes m = cs"
    by (simp_all add: watch_ok_def)
  from assms(2) have stuck: "\<not> internal m m'" "\<not> deliver m m'" for m' by (auto simp: own_step_def)
  then have live: "\<not> mw_cancelled m" "\<not> mw_done m" using winding_down_progress [OF ok(1) _ assms(3)] by auto
  have "mw_forward m c = Receiving \<and> \<not> mw_ended m c \<and> from_cluster c (mw_result m) = relayed c (mw_emitted m c)"
    if c: "c \<in> set cs" for c
  proof -
    have "mw_fanIn m \<noteq> Finished" using ok c live by (auto simp: phases_def)
    moreover have "mw_fanIn m \<noteq> Sending_initial"
      using stuck assms(3) by (cases "mw_pending m") (blast intro: start_forwards send_initial)+
    ultimately have "mw_fanIn m = Forwarding" by (cases "mw_fanIn m") simp_all
    with ok c have "mw_forward m c \<noteq> Idle" by (simp add: phases_def)
    moreover have "mw_forward m c \<noteq> Exited" using ok(1) live by (auto simp: phases_def)
    moreover have "mw_forward m c \<noteq> Holding e" for e using stuck(2) assms(3) by (blast intro: send)
    ultimately have rcv: "mw_forward m c = Receiving" by (cases "mw_forward m c") auto
    have "mw_queue m c = []" using stuck(1) rcv by (cases "mw_queue m c") (blast intro: skip_bookmark receive)+
    moreover from this have "\<not> mw_ended m c" using stuck(1) rcv by (blast intro: remote_ended)
    ultimately show ?thesis using rcv ok(2) by (simp add: in_order_def)
  qed
  with live show ?thesis by blast
qed

lemma delivered_stuck: "\<not> own_step delivered m'"
  by (auto simp: own_step_def delivered_def forwarding_def start_watch_def fun_upd_def
      elim!: internal.cases deliver.cases split: if_splits)

theorem watch_never_stale_witness:
  "from_cluster ''east'' (mw_result delivered) = relayed ''east'' (mw_emitted delivered ''east'')"
  using watch_never_stale [OF run_delivered] delivered_stuck
  by (auto simp: delivered_def forwarding_def start_watch_def)

text \<open>
  C29. Opening a watch is all or nothing: when any selected cluster cannot be listed or watched,
  \<open>Watch\<close> fails with an internal error, every watch it had already opened is stopped again and the
  context is cancelled; no open watch is left behind. When it succeeds, exactly one new watch per
  selected cluster is open.
\<close>

theorem watch_open_leaks_nothing:
  assumes "watch_laws live s (ctx_namespace cx)"
    and "splitClusterSelector L (ilo_labelSelector opts) = (remote, matches)"
    and "Storage_Watch L s cx (Some opts) w = ((res, cancelled), w')"
  shows "case res of
      Inl err \<Rightarrow> IsInternalError err \<and> cancelled \<and> live w' = live w
    | Inr (remotes, m) \<Rightarrow> \<not> cancelled \<and> live w' = live w \<union> handles remotes \<and> live w \<inter> handles remotes = {} \<and>
        mw_remotes m = map fst remotes \<and> map fst remotes = filter matches (keys (clusters s))"
proof -
  let ?sel = "filter (\<lambda>(c, cl). matches c) (clusters s)"
  let ?wo = "watch_options L opts remote"
  obtain r w1 where run: "open_remotes s (ctx_namespace cx) cx ?wo (watchListEnabled opts) ?sel [] [] w = (r, w1)"
    by fastforce
  have keys: "map fst ?sel = filter matches (keys (clusters s))"
    by (simp add: filter_map comp_def case_prod_unfold)
  have "case r of Inl err \<Rightarrow> live w1 = live w \<and> IsInternalError err
      | Inr (remotes, evs) \<Rightarrow> live w1 = live w \<union> handles remotes \<and> live w \<inter> handles remotes = {} \<and>
          map fst remotes = map fst ?sel"
    using open_remotes_live [OF assms(1) _ _ _ _ run, of "live w"]
    by (cases r) (auto simp: handles_def)
  with assms(2,3) run keys show ?thesis
    by (auto simp: Storage_Watch_def Let_def start_watch_def split: sum.splits prod.splits)
qed

text \<open>
  C28. An opened watch has no gap: every selected cluster is watched from the resource version of a
  list of the same objects. A client that asked for the initial events gets every listed object as
  an \<open>Added\<close> event marked with its cluster and then, as the last of them, the bookmark that
  announces their end; a client that did not ask gets no initial events.
\<close>

theorem watch_open_without_gap:
  assumes "splitClusterSelector L (ilo_labelSelector opts) = (remote, matches)"
    and "Storage_Watch L s cx (Some opts) w = ((Inr (remotes, m), cancelled), w')"
  shows "\<exists>evs. m = start_watch (map fst remotes) evs \<and>
    (if watchListEnabled opts then \<exists>initial. evs = initial @ [initial_bookmark s] else evs = []) \<and>
    (\<forall>(c, cl) \<in> set (clusters s). matches c \<longrightarrow>
       established s (ctx_namespace cx) cx (watch_options L opts remote) (watchListEnabled opts) remotes evs (c, cl))"
proof -
  let ?en = "watchListEnabled opts" and ?wo = "watch_options L opts remote"
  from assms obtain evs where
    run: "open_remotes s (ctx_namespace cx) cx ?wo ?en (filter (\<lambda>(c, cl). matches c) (clusters s)) [] [] w =
      (Inr (remotes, evs), w')"
    and m: "m = start_watch (map fst remotes) (if ?en then evs @ [initial_bookmark s] else evs)"
    by (auto simp: Storage_Watch_def Let_def split: sum.splits prod.splits)
  note ok = open_remotes_success [OF run]
  have "established s (ctx_namespace cx) cx ?wo ?en remotes (if ?en then evs @ [initial_bookmark s] else evs) (c, cl)"
    if "(c, cl) \<in> set (clusters s)" and "matches c" for c cl
  proof -
    from that ok have "established s (ctx_namespace cx) cx ?wo ?en remotes evs (c, cl)" by auto
    then show ?thesis unfolding established_def prod.case by (auto; blast)
  qed
  moreover from ok have "\<not> ?en \<Longrightarrow> evs = []" by auto
  ultimately show ?thesis using m by (intro exI [of _ "if ?en then evs @ [initial_bookmark s] else evs"]) auto
qed

text \<open>A member whose world is the list of its open watches.\<close>

definition tracked_client :: "(nat list, nat) dynamic_client" where
  "tracked_client gvr ns =
     (down_client gvr ns)
       \<lparr>ri_List := (\<lambda>cx opts w. (Inr (empty_list\<lparr>l_resourceVersion := ''7''\<rparr>), w)),
        ri_Watch := (\<lambda>cx opts w. (Inr (Suc (sum_list w)), Suc (sum_list w) # w)),
        ri_Stop := removeAll\<rparr>"

definition refusing_client :: "(nat list, nat) dynamic_client" where
  "refusing_client gvr ns = (tracked_client gvr ns)\<lparr>ri_Watch := (\<lambda>cx opts w. (Inl unreachable, w))\<rparr>"

lemma tracked_laws:
  "watch_laws set (demo_storage [(''east'', tracked_client), (''west'', refusing_client)]) ns"
proof -
  have "Suc (sum_list w) \<notin> set w" for w :: "nat list" using member_le_sum_list [of "Suc (sum_list w)" w] by auto
  then show ?thesis
    by (auto simp: watch_laws_def tracked_client_def refusing_client_def demo_storage_def Storage_client_def Let_def)
qed

theorem watch_open_leaks_nothing_witness:
  "\<exists>e w'. Storage_Watch eq_labels (demo_storage [(''east'', tracked_client), (''west'', refusing_client)]) demo_ctx
     (Some no_internal_list_options) [] = ((Inl e, True), w') \<and> set w' = {}"
proof -
  let ?s = "demo_storage [(''east'', tracked_client), (''west'', refusing_client)]"
  have sel: "splitClusterSelector eq_labels (ilo_labelSelector no_internal_list_options) = (None, \<lambda>_. True)"
    by (simp add: no_internal_list_options_def splitClusterSelector_def)
  have run: "Storage_Watch eq_labels ?s demo_ctx (Some no_internal_list_options) [] =
      ((Inl (Status (InternalError (Wrapf ''watching cluster %q: %w'' [''west''] unreachable))), True), [])"
    by (simp add: Storage_Watch_def sel Let_def demo_storage_def Storage_client_def tracked_client_def
        refusing_client_def stop_all_def)
  from watch_open_leaks_nothing [OF tracked_laws sel run] run show ?thesis by simp
qed

theorem watch_open_without_gap_witness:
  "\<exists>remotes m. Storage_Watch eq_labels (demo_storage [(''east'', tracked_client)]) demo_ctx
       (Some no_internal_list_options) [] = ((Inr (remotes, m), False), [Suc 0]) \<and> m = start_watch [''east''] []"
proof -
  let ?s = "demo_storage [(''east'', tracked_client)]"
  have sel: "splitClusterSelector eq_labels (ilo_labelSelector no_internal_list_options) = (None, \<lambda>_. True)"
    by (simp add: no_internal_list_options_def splitClusterSelector_def)
  let ?remotes = "[(''east'', Storage_client ?s tracked_client ''default'', Suc 0)]"
  have off: "\<not> watchListEnabled no_internal_list_options"
    by (simp add: watchListEnabled_def no_internal_list_options_def)
  have "Storage_Watch eq_labels ?s demo_ctx (Some no_internal_list_options) [] =
      ((Inr (?remotes, start_watch [''east''] []), False), [Suc 0])"
    by (simp add: Storage_Watch_def sel off Let_def demo_storage_def Storage_client_def tracked_client_def
        demo_ctx_def)
  with watch_open_without_gap [OF sel this] off show ?thesis by simp
qed

end
