(* ===== verification/API.thy ===== *)
theory API
  imports Kube
begin

text \<open>
  \<open>apis/v1alpha1/aggregatedapi.go\<close>: the custom resource that declares which APIs of which member
  clusters are served, and its status.
\<close>

definition AggregatedAPIConditionReady :: string where
  "AggregatedAPIConditionReady = ''Ready''"

definition DefaultImage :: string where
  "DefaultImage = ''ghcr.io/ntnn/aggregated-apiserver-operator/api-aggregator:latest''"

record APISelector =
  as_Group :: string
  as_Resources :: "string list"
  as_Versions :: "string list"

record ClusterAccess =
  ca_KubeconfigName :: string

record AggregatedCluster =
  ac_Access :: ClusterAccess
  ac_APIs :: "APISelector list"

text \<open>A duration is a number of nanoseconds.\<close>

record AggregatedAPISpec =
  sp_Image :: string
  sp_ResyncInterval :: "int option"
  sp_Clusters :: "AggregatedCluster list"

text \<open>\<open>metav1.Condition\<close>, less the transition time, which \<open>meta.SetStatusCondition\<close> fills in.\<close>

record Condition =
  cond_Type :: string
  cond_Status :: string
  cond_ObservedGeneration :: int
  cond_Reason :: string
  cond_Message :: string

record AggregatedAPIStatus =
  sts_Conditions :: "Condition list"
  sts_URL :: string
  sts_KubeconfigSecret :: string

record AggregatedAPI =
  aa_namespace :: string
  aa_name :: string
  aa_uid :: string
  aa_generation :: int
  aa_deletionTimestamp :: bool
  aa_finalizers :: "string list"
  aa_Spec :: AggregatedAPISpec
  aa_Status :: AggregatedAPIStatus

end
