(* ===== verification/Discovery.thy ===== *)
theory Discovery
  imports API
begin

text \<open>
  \<open>pkg/apiserver/discovery.go\<close>: what the member clusters serve. \<open>FromDiscovery\<close> reads the discovery
  documents of one cluster, \<open>Filter\<close> applies the selectors of the custom resource, and \<open>Union\<close> merges
  the clusters. \<open>schema.ParseGroupVersion\<close> and \<open>GroupVersionResource.String\<close> are parameters.
\<close>

section \<open>Definitions\<close>

record ServedResource =
  sr_GVR :: group_version_resource
  sr_Kind :: group_version_kind
  sr_Namespaced :: bool
  sr_Singular :: string
  sr_Status :: bool
  sr_Clusters :: "string list"

text \<open>\<open>metav1.APIResource\<close> and \<open>metav1.APIResourceList\<close>, by the fields that are read.\<close>

record APIResource =
  ar_Name :: string
  ar_SingularName :: string
  ar_Namespaced :: bool
  ar_Kind :: string

record APIResourceList =
  rl_GroupVersion :: string
  rl_APIResources :: "APIResource list"

text \<open>The parents with a status subresource: the loop that fills the map \<open>status\<close>.\<close>

fun status_parents :: "APIResource list \<Rightarrow> string list" where
  "status_parents [] = []"
| "status_parents (resource # rs) =
     (case CutSuffix (ar_Name resource) ''/status'' of (parent, found) \<Rightarrow>
        if found then parent # status_parents rs else status_parents rs)"

definition discovered :: "group_version \<Rightarrow> string list \<Rightarrow> APIResource \<Rightarrow> ServedResource" where
  "discovered gv status resource =
     \<lparr>sr_GVR = WithResource gv (ar_Name resource), sr_Kind = WithKind gv (ar_Kind resource),
      sr_Namespaced = ar_Namespaced resource, sr_Singular = ar_SingularName resource,
      sr_Status = (ar_Name resource \<in> set status), sr_Clusters = []\<rparr>"

fun FromDiscovery ::
  "(string \<Rightarrow> group_version result) \<Rightarrow> APIResourceList list \<Rightarrow> ServedResource list result" where
  "FromDiscovery parse [] = Inr []"
| "FromDiscovery parse (list # resourceLists) =
     (case parse (rl_GroupVersion list) of
        Inl err \<Rightarrow> Inl (Wrapf ''parsing discovered groupVersion %q: %w'' [rl_GroupVersion list] err)
      | Inr gv \<Rightarrow>
          (let status = status_parents (rl_APIResources list);
               resources = map (discovered gv status)
                 (filter (\<lambda>resource. \<not> Contains (ar_Name resource) CHR ''/'') (rl_APIResources list))
           in case FromDiscovery parse resourceLists of
                Inl err \<Rightarrow> Inl err
              | Inr rest \<Rightarrow> Inr (resources @ rest)))"

definition selector_matches :: "group_version_resource \<Rightarrow> APISelector \<Rightarrow> bool" where
  "selector_matches gvr selector =
     (if as_Group selector \<noteq> ''*'' \<and> as_Group selector \<noteq> gvr_group gvr then False
      else if 0 < length (as_Versions selector) \<and> \<not> List.member (as_Versions selector) (gvr_version gvr)
      then False
      else if 0 < length (as_Resources selector) \<and> \<not> List.member (as_Resources selector) ''*'' \<and>
              \<not> List.member (as_Resources selector) (gvr_resource gvr)
      then False
      else True)"

fun matches :: "group_version_resource \<Rightarrow> APISelector list \<Rightarrow> bool" where
  "matches gvr [] = False"
| "matches gvr (selector # selectors) = (if selector_matches gvr selector then True else matches gvr selectors)"

fun Filter :: "ServedResource list \<Rightarrow> APISelector list \<Rightarrow> ServedResource list" where
  "Filter [] selectors = []"
| "Filter (resource # rs) selectors =
     (if matches (sr_GVR resource) selectors then resource # Filter rs selectors else Filter rs selectors)"

text \<open>The verb \<open>%v\<close> of a slice of strings.\<close>

definition go_slice :: "string list \<Rightarrow> string" where
  "go_slice xs = ''['' @ strings_Join xs '' '' @ '']''"

text \<open>The body of the inner loop of \<open>Union\<close>; \<open>merged\<close> is a map, kept in the order of insertion.\<close>

definition merge_resource ::
  "(group_version_resource \<Rightarrow> string) \<Rightarrow> string \<Rightarrow> ServedResource
     \<Rightarrow> (group_version_resource \<times> ServedResource) list
     \<Rightarrow> (group_version_resource \<times> ServedResource) list result" where
  "merge_resource gvrString cluster resource merged =
     (case map_of merged (sr_GVR resource) of
        None \<Rightarrow> Inr (merged @ [(sr_GVR resource, resource\<lparr>sr_Clusters := [cluster]\<rparr>)])
      | Some existing \<Rightarrow>
          if sr_Kind existing \<noteq> sr_Kind resource \<or> sr_Namespaced existing \<noteq> sr_Namespaced resource
          then Inl (New (sprintf ''clusters disagree on %s: kind/scope conflict between %v and %q''
                 [gvrString (sr_GVR resource), go_slice (sr_Clusters existing), cluster]))
          else Inr (AList.update (sr_GVR resource)
                 (existing\<lparr>sr_Status := sr_Status existing \<or> sr_Status resource,
                    sr_Clusters := sr_Clusters existing @ [cluster]\<rparr>) merged))"

fun merge_resources ::
  "(group_version_resource \<Rightarrow> string) \<Rightarrow> string \<Rightarrow> ServedResource list
     \<Rightarrow> (group_version_resource \<times> ServedResource) list
     \<Rightarrow> (group_version_resource \<times> ServedResource) list result" where
  "merge_resources gvrString cluster [] merged = Inr merged"
| "merge_resources gvrString cluster (resource # rs) merged =
     (case merge_resource gvrString cluster resource merged of
        Inl err \<Rightarrow> Inl err
      | Inr merged' \<Rightarrow> merge_resources gvrString cluster rs merged')"

fun merge_clusters ::
  "(group_version_resource \<Rightarrow> string) \<Rightarrow> (string \<times> ServedResource list) list
     \<Rightarrow> (group_version_resource \<times> ServedResource) list
     \<Rightarrow> (group_version_resource \<times> ServedResource) list result" where
  "merge_clusters gvrString [] merged = Inr merged"
| "merge_clusters gvrString ((cluster, resources) # cs) merged =
     (case merge_resources gvrString cluster resources merged of
        Inl err \<Rightarrow> Inl err
      | Inr merged' \<Rightarrow> merge_clusters gvrString cs merged')"

definition sort_clusters :: "ServedResource \<Rightarrow> ServedResource" where
  "sort_clusters resource = resource\<lparr>sr_Clusters := sort_Strings (sr_Clusters resource)\<rparr>"

definition Union ::
  "(group_version_resource \<Rightarrow> string) \<Rightarrow> (string \<times> ServedResource list) list
     \<Rightarrow> ServedResource list result" where
  "Union gvrString byCluster =
     (case merge_clusters gvrString byCluster [] of
        Inl err \<Rightarrow> Inl err
      | Inr merged \<Rightarrow>
          Inr (sort_Slice (\<lambda>a b. gvrString (sr_GVR a) < gvrString (sr_GVR b))
                 (map (\<lambda>(gvr, resource). sort_clusters resource) merged)))"

section \<open>Specification\<close>

text \<open>What the clusters offer, one entry per cluster and resource.\<close>

definition offers :: "(string \<times> ServedResource list) list \<Rightarrow> (string \<times> ServedResource) list" where
  "offers byCluster = concat (map (\<lambda>(cluster, rs). map (Pair cluster) rs) byCluster)"

definition offers_of ::
  "(string \<times> ServedResource) list \<Rightarrow> group_version_resource \<Rightarrow> (string \<times> ServedResource) list" where
  "offers_of es g = filter (\<lambda>(c, r). sr_GVR r = g) es"

text \<open>The clusters agree on kind and scope of every resource.\<close>

definition consistent :: "(string \<times> ServedResource) list \<Rightarrow> bool" where
  "consistent es \<longleftrightarrow>
     (\<forall>(c, r) \<in> set es. \<forall>(c', r') \<in> set es. sr_GVR r = sr_GVR r' \<longrightarrow>
        sr_Kind r = sr_Kind r' \<and> sr_Namespaced r = sr_Namespaced r')"

definition merge_spec :: "(string \<times> ServedResource) list \<Rightarrow> group_version_resource \<Rightarrow> ServedResource" where
  "merge_spec es g =
     (snd (hd (offers_of es g)))\<lparr>sr_Status := list_ex (\<lambda>(c, r). sr_Status r) (offers_of es g),
        sr_Clusters := map fst (offers_of es g)\<rparr>"

text \<open>The offered resources in the order in which they are first offered.\<close>

fun firsts :: "'a list \<Rightarrow> 'a list" where
  "firsts [] = []"
| "firsts (x # xs) = x # filter (\<lambda>y. y \<noteq> x) (firsts xs)"

definition represents ::
  "(string \<times> ServedResource) list \<Rightarrow> (group_version_resource \<times> ServedResource) list \<Rightarrow> bool" where
  "represents es merged \<longleftrightarrow>
     consistent es \<and> merged = map (\<lambda>g. (g, merge_spec es g)) (firsts (map (\<lambda>(c, r). sr_GVR r) es))"

section \<open>Lemmas\<close>

lemma set_firsts [simp]: "set (firsts xs) = set xs"
  by (induction xs) auto

lemma distinct_firsts [simp]: "distinct (firsts xs)"
  by (induction xs) auto

lemma firsts_snoc: "firsts (xs @ [x]) = (if x \<in> set xs then firsts xs else firsts xs @ [x])"
  by (induction xs) auto

lemma AList_update_map:
  "distinct gs \<Longrightarrow> g \<in> set gs \<Longrightarrow>
     AList.update g v (map (\<lambda>g. (g, f g)) gs) = map (\<lambda>h. (h, if h = g then v else f h)) gs"
  by (induction gs) auto

lemma map_of_map_Pair: "map_of (map (\<lambda>g. (g, f g)) gs) g = (if g \<in> set gs then Some (f g) else None)"
  by (induction gs) auto

lemma offers_of_snoc:
  "offers_of (es @ [(c, r)]) g = offers_of es g @ (if sr_GVR r = g then [(c, r)] else [])"
  by (simp add: offers_of_def)

lemma offers_of_empty: "offers_of es g = [] \<longleftrightarrow> g \<notin> set (map (\<lambda>(c, r). sr_GVR r) es)"
  by (induction es) (auto simp: offers_of_def)

lemma set_offers_of: "(c, r) \<in> set (offers_of es g) \<longleftrightarrow> (c, r) \<in> set es \<and> sr_GVR r = g"
  by (auto simp: offers_of_def)

lemma hd_offer:
  assumes "g \<in> set (map (\<lambda>(c, r). sr_GVR r) es)"
  shows "hd (offers_of es g) \<in> set es \<and> sr_GVR (snd (hd (offers_of es g))) = g"
proof -
  from assms have "offers_of es g \<noteq> []" by (simp add: offers_of_empty)
  moreover obtain c r where h: "hd (offers_of es g) = (c, r)" by fastforce
  ultimately have "(c, r) \<in> set (offers_of es g)" by (metis list.set_sel(1))
  then show ?thesis by (simp add: h set_offers_of)
qed

lemma consistentD:
  "consistent es \<Longrightarrow> (c, r) \<in> set es \<Longrightarrow> (c', r') \<in> set es \<Longrightarrow> sr_GVR r = sr_GVR r' \<Longrightarrow>
     sr_Kind r = sr_Kind r' \<and> sr_Namespaced r = sr_Namespaced r'"
  by (auto simp: consistent_def)

lemma consistent_snoc:
  "consistent (es @ [(c, r)]) \<longleftrightarrow> consistent es \<and>
     (\<forall>(c', r') \<in> set es. sr_GVR r' = sr_GVR r \<longrightarrow> sr_Kind r' = sr_Kind r \<and> sr_Namespaced r' = sr_Namespaced r)"
  unfolding consistent_def by (auto; metis)

lemma merge_resource_step:
  assumes "represents es merged"
  shows "case merge_resource gs c r merged of
      Inl err \<Rightarrow> \<not> consistent (es @ [(c, r)])
    | Inr merged' \<Rightarrow> represents (es @ [(c, r)]) merged'"
proof (cases "sr_GVR r \<in> set (map (\<lambda>(c, r). sr_GVR r) es)")
  case False
  let ?g = "sr_GVR r"
  have "consistent (es @ [(c, r)])"
    using assms False by (force simp: represents_def consistent_snoc)
  moreover have "merge_spec (es @ [(c, r)]) h = merge_spec es h" if "h \<noteq> ?g" for h
    using that by (simp add: merge_spec_def offers_of_snoc)
  moreover have "merge_spec (es @ [(c, r)]) ?g = r\<lparr>sr_Clusters := [c]\<rparr>"
    using False offers_of_empty [of es ?g] by (simp add: merge_spec_def offers_of_snoc)
  moreover have "\<forall>h \<in> set (map (\<lambda>(c, r). sr_GVR r) es). h \<noteq> ?g" using False by blast
  ultimately have "map (\<lambda>g. (g, merge_spec es g)) (firsts (map (\<lambda>(c, r). sr_GVR r) es)) @ [(?g, r\<lparr>sr_Clusters := [c]\<rparr>)] =
      map (\<lambda>g. (g, merge_spec (es @ [(c, r)]) g)) (firsts (map (\<lambda>(c, r). sr_GVR r) (es @ [(c, r)])))"
    using False by (simp add: firsts_snoc)
  with \<open>consistent (es @ [(c, r)])\<close> assms False show ?thesis
    by (simp add: merge_resource_def represents_def map_of_map_Pair)
next
  case True
  let ?g = "sr_GVR r" and ?gs = "firsts (map (\<lambda>(c, r). sr_GVR r) es)"
  let ?h = "snd (hd (offers_of es (sr_GVR r)))"
  have merged: "merged = map (\<lambda>g. (g, merge_spec es g)) ?gs" and con: "consistent es"
    using assms by (simp_all add: represents_def)
  have found: "map_of merged ?g = Some (merge_spec es ?g)" using True by (simp add: merged map_of_map_Pair)
  have hd: "hd (offers_of es ?g) \<in> set es" "sr_GVR ?h = ?g" using hd_offer [OF True] by simp_all
  have agree: "consistent (es @ [(c, r)]) \<longleftrightarrow> sr_Kind ?h = sr_Kind r \<and> sr_Namespaced ?h = sr_Namespaced r"
  proof -
    obtain c0 h where h: "hd (offers_of es ?g) = (c0, h)" by fastforce
    then have mem: "(c0, h) \<in> set es" "sr_GVR h = ?g" using hd by simp_all
    have "sr_Kind r' = sr_Kind h \<and> sr_Namespaced r' = sr_Namespaced h"
      if "(c', r') \<in> set es" and "sr_GVR r' = ?g" for c' r'
      using consistentD [OF con that(1) mem(1)] that(2) mem(2) by simp
    with con mem have "consistent (es @ [(c, r)]) \<longleftrightarrow> sr_Kind h = sr_Kind r \<and> sr_Namespaced h = sr_Namespaced r"
      unfolding consistent_snoc by fastforce
    then show ?thesis by (simp add: h)
  qed
  show ?thesis
  proof (cases "consistent (es @ [(c, r)])")
    case False
    with agree found show ?thesis by (auto simp: merge_resource_def merge_spec_def)
  next
    case True': True
    have ne: "offers_of es ?g \<noteq> []" using True by (simp add: offers_of_empty)
    have "merge_spec (es @ [(c, r)]) h = merge_spec es h" if "h \<noteq> ?g" for h
      using that by (simp add: merge_spec_def offers_of_snoc)
    moreover have "merge_spec (es @ [(c, r)]) ?g =
        (merge_spec es ?g)\<lparr>sr_Status := sr_Status (merge_spec es ?g) \<or> sr_Status r,
          sr_Clusters := sr_Clusters (merge_spec es ?g) @ [c]\<rparr>"
      using ne by (simp add: merge_spec_def offers_of_snoc)
    ultimately have "map (\<lambda>h. (h, if h = ?g then
          (merge_spec es ?g)\<lparr>sr_Status := sr_Status (merge_spec es ?g) \<or> sr_Status r,
            sr_Clusters := sr_Clusters (merge_spec es ?g) @ [c]\<rparr> else merge_spec es h)) ?gs =
        map (\<lambda>h. (h, merge_spec (es @ [(c, r)]) h)) ?gs" by simp
    moreover have "sr_Kind (merge_spec es ?g) = sr_Kind r" "sr_Namespaced (merge_spec es ?g) = sr_Namespaced r"
      using agree True' by (simp_all add: merge_spec_def)
    ultimately show ?thesis
      using True True' found
      by (simp add: merge_resource_def represents_def merged AList_update_map firsts_snoc)
  qed
qed

lemma consistent_append: "consistent (es @ es') \<Longrightarrow> consistent es"
  unfolding consistent_def by fastforce

lemma merge_resources_step:
  assumes "represents es merged"
  shows "case merge_resources gs c rs merged of
      Inl err \<Rightarrow> \<not> consistent (es @ map (Pair c) rs)
    | Inr merged' \<Rightarrow> represents (es @ map (Pair c) rs) merged'"
  using assms
proof (induction rs arbitrary: es merged)
  case Nil
  then show ?case by simp
next
  case (Cons r rs)
  note step = merge_resource_step [OF Cons.prems, of c r gs]
  show ?case
  proof (cases "merge_resource gs c r merged")
    case (Inl err)
    with step consistent_append [of "es @ [(c, r)]" "map (Pair c) rs"] show ?thesis by auto
  next
    case (Inr merged')
    with step have "represents (es @ [(c, r)]) merged'" by simp
    from Cons.IH [OF this] Inr show ?thesis by (auto split: sum.splits)
  qed
qed

lemma merge_clusters_step:
  assumes "represents es merged"
  shows "case merge_clusters gs cs merged of
      Inl err \<Rightarrow> \<not> consistent (es @ offers cs)
    | Inr merged' \<Rightarrow> represents (es @ offers cs) merged'"
  using assms
proof (induction cs arbitrary: es merged)
  case Nil
  then show ?case by (simp add: offers_def)
next
  case (Cons t cs)
  obtain c rs where t: "t = (c, rs)" by fastforce
  have off: "offers (t # cs) = map (Pair c) rs @ offers cs" by (simp add: offers_def t)
  note step = merge_resources_step [OF Cons.prems, of c rs gs]
  show ?case
  proof (cases "merge_resources gs c rs merged")
    case (Inl err)
    with step consistent_append [of "es @ map (Pair c) rs" "offers cs"] show ?thesis by (auto simp: off [unfolded t] t)
  next
    case (Inr merged')
    with step have "represents (es @ map (Pair c) rs) merged'" by simp
    from Cons.IH [OF this] Inr show ?thesis by (auto simp: off [unfolded t] t split: sum.splits)
  qed
qed

lemma merge_clusters_Nil:
  "if consistent (offers cs)
   then merge_clusters gs cs [] = Inr (map (\<lambda>g. (g, merge_spec (offers cs) g)) (firsts (map (\<lambda>(c, r). sr_GVR r) (offers cs))))
   else isl (merge_clusters gs cs [])"
proof -
  have "represents [] []" by (simp add: represents_def consistent_def)
  from merge_clusters_step [OF this, of cs gs] show ?thesis
    by (auto simp: represents_def split: sum.splits)
qed

definition union_spec ::
  "(group_version_resource \<Rightarrow> string) \<Rightarrow> (string \<times> ServedResource) list \<Rightarrow> ServedResource list" where
  "union_spec gs es =
     sort_key (\<lambda>r. gs (sr_GVR r)) (map (\<lambda>g. sort_clusters (merge_spec es g)) (firsts (map (\<lambda>(c, r). sr_GVR r) es)))"

lemma Union_eq:
  "if consistent (offers bc) then Union gs bc = Inr (union_spec gs (offers bc)) else isl (Union gs bc)"
  using merge_clusters_Nil [of bc gs]
  by (auto simp: Union_def union_spec_def comp_def isl_def
      sort_Slice_key [where f = "\<lambda>r. gs (sr_GVR r)"] split: if_splits)

lemma sort_clusters_fields [simp]:
  "sr_GVR (sort_clusters r) = sr_GVR r" "sr_Kind (sort_clusters r) = sr_Kind r"
  "sr_Namespaced (sort_clusters r) = sr_Namespaced r" "sr_Singular (sort_clusters r) = sr_Singular r"
  "sr_Status (sort_clusters r) = sr_Status r" "sr_Clusters (sort_clusters r) = sort_Strings (sr_Clusters r)"
  by (simp_all add: sort_clusters_def)

lemma merge_spec_GVR:
  "g \<in> set (map (\<lambda>(c, r). sr_GVR r) es) \<Longrightarrow> sr_GVR (merge_spec es g) = g"
  using hd_offer [of g es] by (simp add: merge_spec_def)

lemma merge_spec_agrees:
  assumes "consistent es" and "(c, r) \<in> set es"
  shows "sr_Kind (merge_spec es (sr_GVR r)) = sr_Kind r \<and>
    sr_Namespaced (merge_spec es (sr_GVR r)) = sr_Namespaced r"
proof -
  have "sr_GVR r \<in> set (map (\<lambda>(c, r). sr_GVR r) es)" using assms(2) by force
  from hd_offer [OF this] assms show ?thesis
    by (cases "hd (offers_of es (sr_GVR r))") (auto simp: merge_spec_def consistent_def)
qed

lemma map_GVR_union:
  "map sr_GVR (map (\<lambda>g. sort_clusters (merge_spec es g)) (firsts (map (\<lambda>(c, r). sr_GVR r) es))) =
     firsts (map (\<lambda>(c, r). sr_GVR r) es)"
  by (simp add: comp_def) (rule map_idI, simp add: merge_spec_GVR)

text \<open>Two arrangements of the same offers, on whose singular names the clusters agree as well.\<close>

definition singular_agrees :: "(string \<times> ServedResource) list \<Rightarrow> bool" where
  "singular_agrees es \<longleftrightarrow>
     (\<forall>(c, r) \<in> set es. \<forall>(c', r') \<in> set es. sr_GVR r = sr_GVR r' \<longrightarrow> sr_Singular r = sr_Singular r')"

lemma mset_offers: "mset bc = mset bc' \<Longrightarrow> mset (offers bc) = mset (offers bc')"
  unfolding offers_def by (rule mset_concat_map_cong)

lemma sort_clusters_merge_spec_cong:
  assumes "mset es = mset es'" and "consistent es" and "singular_agrees es"
    and "g \<in> set (map (\<lambda>(c, r). sr_GVR r) es)"
  shows "sort_clusters (merge_spec es g) = sort_clusters (merge_spec es' g)"
proof -
  have set: "set es = set es'" using assms(1) by (metis set_mset_mset)
  have off: "mset (offers_of es g) = mset (offers_of es' g)"
    using assms(1) by (simp add: offers_of_def)
  obtain c h c' h' where h: "hd (offers_of es g) = (c, h)" and h': "hd (offers_of es' g) = (c', h')" by fastforce
  have mem: "(c, h) \<in> set es" "sr_GVR h = g" "(c', h') \<in> set es" "sr_GVR h' = g"
    using hd_offer [OF assms(4)] hd_offer [of g es'] assms(4) h h' by (simp_all add: set)
  have "sr_Kind h = sr_Kind h' \<and> sr_Namespaced h = sr_Namespaced h'"
    using consistentD [OF assms(2) mem(1,3)] mem by simp
  moreover have "sr_Singular h = sr_Singular h'" using assms(3) mem by (fastforce simp: singular_agrees_def)
  moreover have "sort_Strings (map fst (offers_of es g)) = sort_Strings (map fst (offers_of es' g))"
    by (rule sort_Strings_cong) (simp add: off)
  moreover have "list_ex P (offers_of es g) = list_ex P (offers_of es' g)" for P
    using off by (metis list_ex_iff set_mset_mset)
  ultimately show ?thesis using mem h h' by (simp add: sort_clusters_def merge_spec_def)
qed

lemma union_spec_cong:
  assumes "mset es = mset es'" and "consistent es" and "singular_agrees es" and "inj gs"
  shows "union_spec gs es = union_spec gs es'"
proof (rule sorted_arrangement_unique [where f = "\<lambda>r. gs (sr_GVR r)"])
  let ?gvrs = "\<lambda>es. firsts (map (\<lambda>(c, r). sr_GVR r) es)"
  have "mset (?gvrs es) = mset (?gvrs es')"
    using assms(1) by (metis distinct_firsts mset_map set_eq_iff_mset_eq_distinct set_firsts set_mset_mset)
  moreover have "map (\<lambda>g. sort_clusters (merge_spec es g)) (?gvrs es') =
      map (\<lambda>g. sort_clusters (merge_spec es' g)) (?gvrs es')"
    using sort_clusters_merge_spec_cong [OF assms(1-3)] mset_eq_setD [OF assms(1)] by simp
  ultimately show "mset (union_spec gs es) = mset (union_spec gs es')"
    unfolding union_spec_def mset_sort by (metis mset_map)
  have "distinct (map sr_GVR (map (\<lambda>g. sort_clusters (merge_spec es g)) (?gvrs es)))"
    unfolding map_GVR_union by (rule distinct_firsts)
  then have "inj_on sr_GVR (set (union_spec gs es))"
    unfolding union_spec_def set_sort distinct_map by (rule conjunct2)
  then show "inj_on (\<lambda>r. gs (sr_GVR r)) (set (union_spec gs es))"
    using assms(4) by (auto simp: inj_on_def inj_def)
qed (simp_all add: union_spec_def)

lemma in_status_parents:
  "p \<in> set (status_parents ars) \<longleftrightarrow> (\<exists>sub \<in> set ars. ar_Name sub = p @ ''/status'')"
proof (induction ars)
  case (Cons ar ars)
  obtain parent found where cut: "CutSuffix (ar_Name ar) ''/status'' = (parent, found)" by fastforce
  show ?case
  proof (cases found)
    case True
    with cut have "ar_Name ar = p @ ''/status'' \<longleftrightarrow> p = parent" for p
      using CutSuffix_found_iff [of "ar_Name ar" "''/status''"] by auto
    with Cons cut True show ?thesis by auto
  next
    case False
    with cut have "ar_Name ar \<noteq> p @ ''/status''"
      using CutSuffix_found_iff [of "ar_Name ar" "''/status''" p] by auto
    with Cons cut False show ?thesis by auto
  qed
qed simp

lemma discovered_iff:
  "r = discovered g (status_parents ars) ar \<longleftrightarrow>
     sr_GVR r = WithResource g (ar_Name ar) \<and> sr_Kind r = WithKind g (ar_Kind ar) \<and>
     sr_Namespaced r = ar_Namespaced ar \<and> sr_Singular r = ar_SingularName ar \<and> sr_Clusters r = [] \<and>
     (sr_Status r \<longleftrightarrow> (\<exists>sub \<in> set ars. ar_Name sub = ar_Name ar @ ''/status''))"
  unfolding in_status_parents [symmetric] discovered_def by (cases r) auto

section \<open>Properties\<close>

text \<open>
  C33. Which discovered resources are considered: exactly the entries of the discovery documents whose
  name has no slash, each with the group and version of its document, and with the status
  subresource exactly when the document also lists \<open>name/status\<close>. An unreadable document makes the
  whole discovery fail.
\<close>

theorem discovery_complete:
  assumes "\<And>l. l \<in> set ls \<Longrightarrow> parse (rl_GroupVersion l) = Inr (gv l)"
  shows "\<exists>rs. FromDiscovery parse ls = Inr rs \<and>
    (\<forall>r. r \<in> set rs \<longleftrightarrow> (\<exists>l \<in> set ls. \<exists>ar \<in> set (rl_APIResources l).
       CHR ''/'' \<notin> set (ar_Name ar) \<and> sr_GVR r = WithResource (gv l) (ar_Name ar) \<and>
       sr_Kind r = WithKind (gv l) (ar_Kind ar) \<and> sr_Namespaced r = ar_Namespaced ar \<and>
       sr_Singular r = ar_SingularName ar \<and> sr_Clusters r = [] \<and>
       (sr_Status r \<longleftrightarrow> (\<exists>sub \<in> set (rl_APIResources l). ar_Name sub = ar_Name ar @ ''/status''))))"
  using assms
proof (induction ls)
  case Nil
  then show ?case by simp
next
  case (Cons l ls)
  then obtain rest where rest: "FromDiscovery parse ls = Inr rest" and
    spec: "\<forall>r. r \<in> set rest \<longleftrightarrow> (\<exists>l \<in> set ls. \<exists>ar \<in> set (rl_APIResources l).
       CHR ''/'' \<notin> set (ar_Name ar) \<and> sr_GVR r = WithResource (gv l) (ar_Name ar) \<and>
       sr_Kind r = WithKind (gv l) (ar_Kind ar) \<and> sr_Namespaced r = ar_Namespaced ar \<and>
       sr_Singular r = ar_SingularName ar \<and> sr_Clusters r = [] \<and>
       (sr_Status r \<longleftrightarrow> (\<exists>sub \<in> set (rl_APIResources l). ar_Name sub = ar_Name ar @ ''/status'')))" by force
  let ?here = "map (discovered (gv l) (status_parents (rl_APIResources l)))
      (filter (\<lambda>ar. \<not> Contains (ar_Name ar) CHR ''/'') (rl_APIResources l))"
  have here: "r \<in> set ?here \<longleftrightarrow> (\<exists>ar \<in> set (rl_APIResources l).
       CHR ''/'' \<notin> set (ar_Name ar) \<and> sr_GVR r = WithResource (gv l) (ar_Name ar) \<and>
       sr_Kind r = WithKind (gv l) (ar_Kind ar) \<and> sr_Namespaced r = ar_Namespaced ar \<and>
       sr_Singular r = ar_SingularName ar \<and> sr_Clusters r = [] \<and>
       (sr_Status r \<longleftrightarrow> (\<exists>sub \<in> set (rl_APIResources l). ar_Name sub = ar_Name ar @ ''/status'')))" for r
    unfolding set_map set_filter image_iff discovered_iff [symmetric] by (auto simp: Contains_def)
  have "FromDiscovery parse (l # ls) = Inr (?here @ rest)" using Cons.prems [of l] rest by (simp add: Let_def)
  moreover have "r \<in> set (?here @ rest) \<longleftrightarrow> r \<in> set ?here \<or> r \<in> set rest" for r by simp
  ultimately show ?case using here spec by (intro exI [of _ "?here @ rest"]) (simp add: bex_simps)
qed

definition demo_resource :: "string \<Rightarrow> APIResource" where
  "demo_resource name = \<lparr>ar_Name = name, ar_SingularName = ''deployment'', ar_Namespaced = True, ar_Kind = ''Deployment''\<rparr>"

theorem discovery_complete_witness:
  "\<exists>rs. FromDiscovery (\<lambda>s. Inr \<lparr>gv_group = ''apps'', gv_version = ''v1''\<rparr>)
     [\<lparr>rl_GroupVersion = ''apps/v1'', rl_APIResources = [demo_resource ''deployments'', demo_resource ''deployments/status'']\<rparr>] =
     Inr rs \<and> discovered \<lparr>gv_group = ''apps'', gv_version = ''v1''\<rparr> [''deployments''] (demo_resource ''deployments'') \<in> set rs"
proof -
  let ?ls = "[\<lparr>rl_GroupVersion = ''apps/v1'', rl_APIResources = [demo_resource ''deployments'', demo_resource ''deployments/status'']\<rparr>]"
  let ?parse = "\<lambda>s :: string. Inr \<lparr>gv_group = ''apps'', gv_version = ''v1''\<rparr> :: group_version result"
  from discovery_complete [of ?ls ?parse "\<lambda>_. \<lparr>gv_group = ''apps'', gv_version = ''v1''\<rparr>"]
  show ?thesis by (auto simp: discovered_def demo_resource_def)
qed

text \<open>
  Which resources are served: exactly those that some selector of the custom resource asks for,
  by group or \<open>*\<close>, by version or any, by resource name, \<open>*\<close> or any.
\<close>

theorem filter_selects:
  "r \<in> set (Filter rs selectors) \<longleftrightarrow> r \<in> set rs \<and>
     (\<exists>sel \<in> set selectors. as_Group sel \<in> {''*'', gvr_group (sr_GVR r)} \<and>
        (as_Versions sel = [] \<or> gvr_version (sr_GVR r) \<in> set (as_Versions sel)) \<and>
        (as_Resources sel = [] \<or> ''*'' \<in> set (as_Resources sel) \<or> gvr_resource (sr_GVR r) \<in> set (as_Resources sel)))"
proof -
  have "selector_matches g sel \<longleftrightarrow> as_Group sel \<in> {''*'', gvr_group g} \<and>
      (as_Versions sel = [] \<or> gvr_version g \<in> set (as_Versions sel)) \<and>
      (as_Resources sel = [] \<or> ''*'' \<in> set (as_Resources sel) \<or> gvr_resource g \<in> set (as_Resources sel))" for g sel
    by (auto simp: selector_matches_def)
  moreover have "matches g sels \<longleftrightarrow> (\<exists>sel \<in> set sels. selector_matches g sel)" for g sels
    by (induction sels) auto
  moreover have "set (Filter rs selectors) = {r \<in> set rs. matches (sr_GVR r) selectors}"
    by (induction rs) auto
  ultimately show ?thesis by simp
qed

text \<open>
  C15. \<open>Union\<close> fails exactly when two clusters (or one cluster twice) offer a resource with different
  kinds or scopes. Otherwise the result has every offered resource once, in the order of their
  names, with the kind and scope everybody agrees on, with the clusters that offer it in order,
  and with the status subresource when any of them has it.
\<close>

theorem union_merges:
  "((\<exists>err. Union gs bc = Inl err) \<longleftrightarrow> \<not> consistent (offers bc)) \<and>
   (\<forall>rs. Union gs bc = Inr rs \<longrightarrow>
      sorted (map (\<lambda>r. gs (sr_GVR r)) rs) \<and> distinct (map sr_GVR rs) \<and>
      set (map sr_GVR rs) = set (map (\<lambda>(c, r). sr_GVR r) (offers bc)) \<and>
      (\<forall>r \<in> set rs. sr_Clusters r = sort (map fst (offers_of (offers bc) (sr_GVR r))) \<and>
         (sr_Status r \<longleftrightarrow> (\<exists>(c, o') \<in> set (offers_of (offers bc) (sr_GVR r)). sr_Status o')) \<and>
         (\<forall>(c, o') \<in> set (offers_of (offers bc) (sr_GVR r)). sr_Kind r = sr_Kind o' \<and> sr_Namespaced r = sr_Namespaced o')))"
proof (intro conjI allI impI)
  show "(\<exists>err. Union gs bc = Inl err) \<longleftrightarrow> \<not> consistent (offers bc)"
    using Union_eq [of bc gs] by (auto simp: isl_def split: if_splits)
next
  fix rs
  assume rs: "Union gs bc = Inr rs"
  let ?es = "offers bc" and ?gvrs = "firsts (map (\<lambda>(c, r). sr_GVR r) (offers bc))"
  have con: "consistent ?es" and eq: "rs = union_spec gs ?es"
    using Union_eq [of bc gs] rs by (auto simp: isl_def split: if_splits)
  have mset: "mset rs = mset (map (\<lambda>g. sort_clusters (merge_spec ?es g)) ?gvrs)" by (simp add: eq union_spec_def)
  then have gvrs: "mset (map sr_GVR rs) = mset ?gvrs" by (metis map_GVR_union mset_map)
  show "sorted (map (\<lambda>r. gs (sr_GVR r)) rs)" by (simp add: eq union_spec_def)
  show "distinct (map sr_GVR rs)" using gvrs by (metis distinct_firsts mset_eq_imp_distinct_iff)
  show "set (map sr_GVR rs) = set (map (\<lambda>(c, r). sr_GVR r) ?es)" using mset_eq_setD [OF gvrs] by simp
  show "\<forall>r \<in> set rs. sr_Clusters r = sort (map fst (offers_of ?es (sr_GVR r))) \<and>
      (sr_Status r \<longleftrightarrow> (\<exists>(c, o') \<in> set (offers_of ?es (sr_GVR r)). sr_Status o')) \<and>
      (\<forall>(c, o') \<in> set (offers_of ?es (sr_GVR r)). sr_Kind r = sr_Kind o' \<and> sr_Namespaced r = sr_Namespaced o')"
  proof
    fix r
    assume "r \<in> set rs"
    with mset_eq_setD [OF mset] obtain g where g: "g \<in> set (map (\<lambda>(c, r). sr_GVR r) ?es)"
      and r: "r = sort_clusters (merge_spec ?es g)" by auto
    have gvr: "sr_GVR r = g" using merge_spec_GVR [OF g] r by simp
    have "sr_Kind r = sr_Kind o' \<and> sr_Namespaced r = sr_Namespaced o'" if "(c, o') \<in> set (offers_of ?es g)" for c o'
      using merge_spec_agrees [OF con, of c o'] that r by (auto simp: set_offers_of)
    moreover have "sr_Clusters r = sort (map fst (offers_of ?es g))" by (simp add: r merge_spec_def sort_Strings_eq)
    moreover have "sr_Status r \<longleftrightarrow> (\<exists>(c, o') \<in> set (offers_of ?es g). sr_Status o')"
      by (auto simp: r merge_spec_def list_ex_iff)
    ultimately show "sr_Clusters r = sort (map fst (offers_of ?es (sr_GVR r))) \<and>
      (sr_Status r \<longleftrightarrow> (\<exists>(c, o') \<in> set (offers_of ?es (sr_GVR r)). sr_Status o')) \<and>
      (\<forall>(c, o') \<in> set (offers_of ?es (sr_GVR r)). sr_Kind r = sr_Kind o' \<and> sr_Namespaced r = sr_Namespaced o')"
      unfolding gvr by auto
  qed
qed

definition demo_served :: "string \<Rightarrow> bool \<Rightarrow> ServedResource" where
  "demo_served singular status =
     \<lparr>sr_GVR = WithResource \<lparr>gv_group = ''apps'', gv_version = ''v1''\<rparr> ''deployments'',
      sr_Kind = WithKind \<lparr>gv_group = ''apps'', gv_version = ''v1''\<rparr> ''Deployment'', sr_Namespaced = True,
      sr_Singular = singular, sr_Status = status, sr_Clusters = []\<rparr>"

text \<open>An injective rendering of resources: the parts, each preceded by its length in unary.\<close>

definition tagged :: "string \<Rightarrow> string" where
  "tagged s = replicate (length s) CHR ''1'' @ CHR ''0'' # s"

definition demo_gvrString :: "group_version_resource \<Rightarrow> string" where
  "demo_gvrString g = tagged (gvr_group g) @ tagged (gvr_version g) @ tagged (gvr_resource g)"

lemma tagged_append_eq: "tagged s @ t = tagged s' @ t' \<longleftrightarrow> s = s' \<and> t = t'"
proof
  assume eq: "tagged s @ t = tagged s' @ t'"
  have "takeWhile (\<lambda>c. c = CHR ''1'') (replicate n (CHR ''1'') @ CHR ''0'' # v) = replicate n (CHR ''1'')" for n v
    by (induction n) simp_all
  then have "takeWhile (\<lambda>c. c = CHR ''1'') (tagged u @ v) = replicate (length u) (CHR ''1'')" for u v
    by (simp add: tagged_def)
  then have "length s = length s'" using eq by (metis length_replicate)
  with eq show "s = s' \<and> t = t'" by (simp add: tagged_def)
qed simp

lemma inj_demo_gvrString: "inj demo_gvrString"
proof (rule injI)
  fix g h
  assume "demo_gvrString g = demo_gvrString h"
  then show "g = h"
    using tagged_append_eq [of "gvr_resource g" "[]" "gvr_resource h" "[]"]
    by (simp add: demo_gvrString_def tagged_append_eq)
qed

theorem union_merges_witness:
  "Union demo_gvrString [(''west'', [demo_served ''deployment'' False]), (''east'', [demo_served ''deployment'' True])] =
     Inr [(demo_served ''deployment'' True)\<lparr>sr_Clusters := [''east'', ''west'']\<rparr>]"
proof -
  have "Union demo_gvrString [(''west'', [demo_served ''deployment'' False]), (''east'', [demo_served ''deployment'' True])] =
     Inr [(demo_served ''deployment'' True)\<lparr>sr_Clusters := sort_Strings [''west'', ''east'']\<rparr>]"
    by (simp add: Union_def merge_resource_def demo_served_def sort_Slice_def sort_clusters_def)
  moreover have "sort_Strings [''west'', ''east''] = [''east'', ''west'']"
    by (simp add: sort_Strings_def sort_Slice_def)
  ultimately show ?thesis
    using union_merges [of demo_gvrString "[(''west'', [demo_served ''deployment'' False]), (''east'', [demo_served ''deployment'' True])]"]
    by simp
qed



text \<open>
  The agreement on singular names is needed: \<open>Union\<close> does not check them, so two visiting orders
  of the same clusters give different results, and the served singular name is one of them at random.
\<close>

theorem union_singular_depends_on_order:
  "\<exists>bc bc'. mset bc = mset bc' \<and> consistent (offers bc) \<and> Union demo_gvrString bc \<noteq> Union demo_gvrString bc'"
proof (intro exI conjI)
  let ?a = "(''west'', [demo_served ''deploy'' True])" and ?b = "(''east'', [demo_served ''deployment'' True])"
  show "mset [?a, ?b] = mset [?b, ?a]" by simp
  show "consistent (offers [?a, ?b])" by (simp add: consistent_def offers_def demo_served_def)
  show "Union demo_gvrString [?a, ?b] \<noteq> Union demo_gvrString [?b, ?a]"
    by (simp add: Union_def merge_resource_def demo_served_def sort_Slice_def sort_clusters_def)
qed

end
