(* ===== verification/Install.thy ===== *)
theory Install
  imports Watcher Discovery
begin

text \<open>
  \<open>pkg/apiserver/generic.go\<close> and \<open>install.go\<close>: one storage per served resource (and one for its
  status), grouped by group and version, and their installation into a generic API server. Of the
  generic API server, which is not part of the repository, the model keeps what is handed to it;
  installing the REST handlers of a group version (\<open>InstallREST\<close>) and building the server
  (\<open>config.Complete(nil).New\<close>) are parameters.
\<close>

section \<open>Definitions\<close>

datatype ('w, 'h) rest_storage =
    Resource_Storage "('w, 'h) storage"
  | Status_Storage "('w, 'h) status_storage"

type_synonym ('w, 'h) storage_map = "(string \<times> ('w, 'h) rest_storage) list"

type_synonym ('w, 'h) by_group_version = "(group_version \<times> ('w, 'h) storage_map) list"

text \<open>The clients of the clusters that serve a resource.\<close>

fun resource_clusters ::
  "(string \<times> ('w, 'h) dynamic_client) list \<Rightarrow> string \<Rightarrow> string list
     \<Rightarrow> (string \<times> ('w, 'h) dynamic_client) list \<Rightarrow> (string \<times> ('w, 'h) dynamic_client) list result" where
  "resource_clusters clients gvr [] acc = Inr acc"
| "resource_clusters clients gvr (cluster # cs) acc =
     (case map_of clients cluster of
        None \<Rightarrow> Inl (New (sprintf ''no client for cluster %q serving %s'' [cluster, gvr]))
      | Some client \<Rightarrow> resource_clusters clients gvr cs (AList.update cluster client acc))"

definition put_storage ::
  "group_version \<Rightarrow> string \<Rightarrow> ('w, 'h) rest_storage \<Rightarrow> ('w, 'h) by_group_version \<Rightarrow> ('w, 'h) by_group_version" where
  "put_storage gv name st m =
     AList.update gv (AList.update name st (case map_of m gv of None \<Rightarrow> [] | Some sm \<Rightarrow> sm)) m"

text \<open>The body of the loop over the resources.\<close>

definition install_resource ::
  "(group_version_resource \<Rightarrow> string) \<Rightarrow> (string \<times> ('w, 'h) dynamic_client) list \<Rightarrow> nat option
     \<Rightarrow> ServedResource \<Rightarrow> ('w, 'h) by_group_version \<Rightarrow> ('w, 'h) by_group_version result" where
  "install_resource gvrString clients done resource byGroupVersion =
     (case resource_clusters clients (gvrString (sr_GVR resource)) (sr_Clusters resource) [] of
        Inl err \<Rightarrow> Inl err
      | Inr resourceClusters \<Rightarrow>
          (case storage_New \<lparr>so_GVR = sr_GVR resource, so_Kind = sr_Kind resource,
                   so_Namespaced = sr_Namespaced resource, so_Singular = sr_Singular resource,
                   so_Clusters = resourceClusters, so_Done = done\<rparr> of
             Inl err \<Rightarrow> Inl (Wrapf ''building storage for %s: %w'' [gvrString (sr_GVR resource)] err)
           | Inr store \<Rightarrow>
               (let gv = GVR_GroupVersion (sr_GVR resource);
                    name = gvr_resource (sr_GVR resource);
                    m = put_storage gv name (Resource_Storage store) byGroupVersion
                in Inr (if sr_Status resource
                        then put_storage gv (name @ ''/status'') (Status_Storage (NewStatus store)) m
                        else m))))"

fun install_storages ::
  "(group_version_resource \<Rightarrow> string) \<Rightarrow> (string \<times> ('w, 'h) dynamic_client) list \<Rightarrow> nat option
     \<Rightarrow> ServedResource list \<Rightarrow> ('w, 'h) by_group_version \<Rightarrow> ('w, 'h) by_group_version result" where
  "install_storages gvrString clients done [] m = Inr m"
| "install_storages gvrString clients done (resource # rs) m =
     (case install_resource gvrString clients done resource m of
        Inl err \<Rightarrow> Inl err
      | Inr m' \<Rightarrow> install_storages gvrString clients done rs m')"

datatype api_prefix = APIGroupPrefix | DefaultLegacyAPIPrefix

text \<open>What a generic API server is handed, in the order of the calls.\<close>

record APIGroup =
  ag_Name :: string
  ag_Versions :: "group_version list"
  ag_PreferredVersion :: group_version

record ('w, 'h, 'd) generic_server =
  gs_external_address :: string
  gs_rest :: "(group_version \<times> api_prefix \<times> ('w, 'h) storage_map) list"
  gs_aggregated :: "(string \<times> string \<times> 'd) list"
  gs_legacy_aggregated :: "(string \<times> string \<times> 'd) list"
  gs_groups :: "APIGroup list"
  gs_group_services :: "APIGroup list"
  gs_legacy_roots :: nat

definition installGroupVersion ::
  "(group_version \<Rightarrow> string) \<Rightarrow> (group_version \<Rightarrow> api_prefix \<Rightarrow> ('w, 'h) storage_map \<Rightarrow> 'd result)
     \<Rightarrow> ('w, 'h, 'd) generic_server \<Rightarrow> group_version \<Rightarrow> api_prefix \<Rightarrow> ('w, 'h) storage_map
     \<Rightarrow> ('w, 'h, 'd) generic_server result" where
  "installGroupVersion gvString installREST server groupVersion apiPrefix storageMap =
     (case installREST groupVersion apiPrefix storageMap of
        Inl err \<Rightarrow> Inl (Wrapf ''installing %s: %w'' [gvString groupVersion] err)
      | Inr discoveryResources \<Rightarrow>
          (let server = server\<lparr>gs_rest := gs_rest server @ [(groupVersion, apiPrefix, storageMap)]\<rparr>;
               versionDiscovery = (gv_group groupVersion, gv_version groupVersion, discoveryResources)
           in if apiPrefix = APIGroupPrefix then
                (let apiGroup = \<lparr>ag_Name = gv_group groupVersion, ag_Versions = [groupVersion],
                       ag_PreferredVersion = groupVersion\<rparr>
                 in Inr (server\<lparr>gs_aggregated := gs_aggregated server @ [versionDiscovery],
                       gs_groups := gs_groups server @ [apiGroup],
                       gs_group_services := gs_group_services server @ [apiGroup]\<rparr>))
              else Inr (server\<lparr>gs_legacy_aggregated := gs_legacy_aggregated server @ [versionDiscovery],
                     gs_legacy_roots := gs_legacy_roots server + 1\<rparr>)))"

fun install_groups ::
  "(group_version \<Rightarrow> string) \<Rightarrow> (group_version \<Rightarrow> api_prefix \<Rightarrow> ('w, 'h) storage_map \<Rightarrow> 'd result)
     \<Rightarrow> ('w, 'h) by_group_version \<Rightarrow> ('w, 'h, 'd) generic_server \<Rightarrow> ('w, 'h, 'd) generic_server result" where
  "install_groups gvString installREST [] server = Inr server"
| "install_groups gvString installREST ((gv, storageMap) # rest) server =
     (let apiPrefix = (if gv_group gv = '''' then DefaultLegacyAPIPrefix else APIGroupPrefix)
      in case installGroupVersion gvString installREST server gv apiPrefix storageMap of
           Inl err \<Rightarrow> Inl err
         | Inr server' \<Rightarrow> install_groups gvString installREST rest server')"

text \<open>
  The scheme is the list of its registrations; the codecs and the serializer built from it go into
  \<open>InstallREST\<close> only.
\<close>

datatype registration =
    AddKnownTypeWithName group_version_kind string
  | AddToGroupVersion group_version

definition newScheme :: "ServedResource list \<Rightarrow> registration list" where
  "newScheme resources =
     AddToGroupVersion \<lparr>gv_group = '''', gv_version = ''v1''\<rparr> #
     concat (map (\<lambda>resource.
       [AddKnownTypeWithName (sr_Kind resource) ''*unstructured.Unstructured'',
        AddKnownTypeWithName (WithKind (GVK_GroupVersion (sr_Kind resource)) (gvk_kind (sr_Kind resource) @ ''List''))
          ''*unstructured.UnstructuredList'',
        AddToGroupVersion (GVK_GroupVersion (sr_Kind resource))]) resources)"

definition newServerScheme :: "registration list" where
  "newServerScheme = [AddToGroupVersion \<lparr>gv_group = '''', gv_version = ''v1''\<rparr>]"

text \<open>
  \<open>genericapiserver.Config\<close>, the fields that are set: the scheme of the codecs, the effective version,
  the authorizer, the two OpenAPI configurations (title, and the resources the definition namer is
  given), the external address and the host of the loopback client.
\<close>

datatype authorizer = AlwaysAllow

record openapi_config =
  oc_Title :: string
  oc_GetDefinitionName :: "ServedResource list"

record generic_config =
  gc_Scheme :: "registration list"
  gc_EffectiveVersion :: string
  gc_Authorizer :: authorizer
  gc_OpenAPIV3Config :: openapi_config
  gc_OpenAPIConfig :: openapi_config
  gc_ExternalAddress :: string
  gc_LoopbackHost :: string

text \<open>What comes from the libraries; \<open>lib_NewServer\<close> is \<open>config.Complete(nil).New\<close>.\<close>

record ('w, 'h, 'd) server_libs =
  lib_gvrString :: "group_version_resource \<Rightarrow> string"
  lib_gvString :: "group_version \<Rightarrow> string"
  lib_InstallREST :: "registration list \<Rightarrow> group_version \<Rightarrow> api_prefix \<Rightarrow> ('w, 'h) storage_map \<Rightarrow> 'd result"
  lib_NewServer :: "generic_config \<Rightarrow> string \<Rightarrow> go_error option"

definition installResources ::
  "('w, 'h, 'd) server_libs \<Rightarrow> ('w, 'h, 'd) generic_server \<Rightarrow> ServedResource list
     \<Rightarrow> (string \<times> ('w, 'h) dynamic_client) list \<Rightarrow> nat option \<Rightarrow> ('w, 'h, 'd) generic_server result" where
  "installResources lib server resources clients done =
     (let scheme = newScheme resources
      in case install_storages (lib_gvrString lib) clients done resources [] of
           Inl err \<Rightarrow> Inl err
         | Inr byGroupVersion \<Rightarrow>
             install_groups (lib_gvString lib) (lib_InstallREST lib scheme) byGroupVersion server)"

text \<open>\<open>net.JoinHostPort\<close>: a host with a colon (an IPv6 address) is put in brackets.\<close>

definition JoinHostPort :: "string \<Rightarrow> string \<Rightarrow> string" where
  "JoinHostPort host port =
     (if Contains host CHR '':'' then ''['' @ host @ '']:'' @ port
      else host @ '':'' @ port)"

definition server_config :: "ServedResource list \<Rightarrow> string \<Rightarrow> generic_config" where
  "server_config resources address =
     \<lparr>gc_Scheme = newServerScheme, gc_EffectiveVersion = ''1.0'', gc_Authorizer = AlwaysAllow,
      gc_OpenAPIV3Config = \<lparr>oc_Title = ''api-aggregator'', oc_GetDefinitionName = resources\<rparr>,
      gc_OpenAPIConfig = \<lparr>oc_Title = ''api-aggregator'', oc_GetDefinitionName = resources\<rparr>,
      gc_ExternalAddress = address, gc_LoopbackHost = ''https://'' @ address\<rparr>"

definition newGenericServer ::
  "('w, 'h, 'd) server_libs \<Rightarrow> string \<Rightarrow> int \<Rightarrow> ServedResource list
     \<Rightarrow> (string \<times> ('w, 'h) dynamic_client) list \<Rightarrow> nat option \<Rightarrow> ('w, 'h, 'd) generic_server result" where
  "newGenericServer lib hostname port resources clients done =
     (let address = JoinHostPort hostname (strconv_Itoa port)
      in case lib_NewServer lib (server_config resources address) ''api-aggregator'' of
           Some err \<Rightarrow> Inl (Wrapf ''building generic apiserver: %w'' [] err)
         | None \<Rightarrow>
             installResources lib
               \<lparr>gs_external_address = address, gs_rest = [], gs_aggregated = [], gs_legacy_aggregated = [],
                gs_groups = [], gs_group_services = [], gs_legacy_roots = 0\<rparr> resources clients done)"

section \<open>Specification\<close>

text \<open>The storage the server has to have under a group version and a name.\<close>

definition storage_of ::
  "(string \<times> ('w, 'h) dynamic_client) list \<Rightarrow> nat option \<Rightarrow> ServedResource \<Rightarrow> ('w, 'h) storage" where
  "storage_of clients done r =
     \<lparr>st_opts = \<lparr>so_GVR = sr_GVR r, so_Kind = sr_Kind r, so_Namespaced = sr_Namespaced r,
        so_Singular = sr_Singular r,
        so_Clusters = map (\<lambda>c. (c, the (map_of clients c))) (sr_Clusters r), so_Done = done\<rparr>,
      st_table = GVR_GroupResource (sr_GVR r)\<rparr>"

definition find_storage ::
  "('w, 'h) by_group_version \<Rightarrow> group_version \<Rightarrow> string \<Rightarrow> ('w, 'h) rest_storage option" where
  "find_storage m gv name = (case map_of m gv of None \<Rightarrow> None | Some sm \<Rightarrow> map_of sm name)"

text \<open>A resource that can be served: it has a name and a kind, and a client for each of its clusters.\<close>

definition installable :: "(string \<times> ('w, 'h) dynamic_client) list \<Rightarrow> ServedResource \<Rightarrow> bool" where
  "installable clients r \<longleftrightarrow>
     gvr_resource (sr_GVR r) \<noteq> '''' \<and> gvk_kind (sr_Kind r) \<noteq> '''' \<and> sr_Clusters r \<noteq> [] \<and>
     distinct (sr_Clusters r) \<and> CHR ''/'' \<notin> set (gvr_resource (sr_GVR r)) \<and>
     set (sr_Clusters r) \<subseteq> set (keys clients)"

definition expected ::
  "(string \<times> ('w, 'h) dynamic_client) list \<Rightarrow> nat option \<Rightarrow> ServedResource list
     \<Rightarrow> group_version \<Rightarrow> string \<Rightarrow> ('w, 'h) rest_storage option \<Rightarrow> bool" where
  "expected clients done rs gv name st \<longleftrightarrow>
     (case st of
        None \<Rightarrow> \<forall>r \<in> set rs. GVR_GroupVersion (sr_GVR r) = gv \<longrightarrow>
          name \<noteq> gvr_resource (sr_GVR r) \<and> (sr_Status r \<longrightarrow> name \<noteq> gvr_resource (sr_GVR r) @ ''/status'')
      | Some s \<Rightarrow> \<exists>r \<in> set rs. GVR_GroupVersion (sr_GVR r) = gv \<and>
          (name = gvr_resource (sr_GVR r) \<and> s = Resource_Storage (storage_of clients done r) \<or>
           sr_Status r \<and> name = gvr_resource (sr_GVR r) @ ''/status'' \<and>
             s = Status_Storage (NewStatus (storage_of clients done r))))"

section \<open>Lemmas\<close>

lemma resource_clusters_ok:
  assumes "distinct (keys acc @ cs)" and "set cs \<subseteq> set (keys clients)"
  shows "resource_clusters clients g cs acc = Inr (acc @ map (\<lambda>c. (c, the (map_of clients c))) cs)"
  using assms
proof (induction cs arbitrary: acc)
  case Nil
  then show ?case by simp
next
  case (Cons c cs)
  then obtain cl where "map_of clients c = Some cl"
    by (metis insert_subset list.simps(15) map_of_eq_None_iff not_None_eq set_map)
  moreover have "AList.update c cl acc = acc @ [(c, cl)]"
    using Cons.prems(1) by (induction acc) auto
  ultimately show ?case using Cons by simp
qed

lemma find_put_storage [simp]:
  "find_storage (put_storage gv name st m) gv' name' =
     (if gv' = gv \<and> name' = name then Some st else find_storage m gv' name')"
  by (auto simp: find_storage_def put_storage_def update_conv' split: option.splits)

lemma install_resource_ok:
  assumes "installable clients r"
  shows "install_resource gs clients d r m =
    Inr (if sr_Status r
         then put_storage (GVR_GroupVersion (sr_GVR r)) (gvr_resource (sr_GVR r) @ ''/status'')
                (Status_Storage (NewStatus (storage_of clients d r)))
                (put_storage (GVR_GroupVersion (sr_GVR r)) (gvr_resource (sr_GVR r))
                   (Resource_Storage (storage_of clients d r)) m)
         else put_storage (GVR_GroupVersion (sr_GVR r)) (gvr_resource (sr_GVR r))
                (Resource_Storage (storage_of clients d r)) m)"
proof -
  have "resource_clusters clients (gs (sr_GVR r)) (sr_Clusters r) [] =
      Inr (map (\<lambda>c. (c, the (map_of clients c))) (sr_Clusters r))"
    using resource_clusters_ok [of "[]" "sr_Clusters r" clients] assms by (simp add: installable_def)
  with assms show ?thesis
    by (simp add: install_resource_def storage_New_def storage_validate_def installable_def storage_of_def Let_def)
qed

lemma no_status_name: "CHR ''/'' \<notin> set name \<Longrightarrow> name \<noteq> name' @ ''/status''"
  by auto

lemma status_name_inject: "n @ ''/status'' = n' @ ''/status'' \<longleftrightarrow> n = n'"
  by simp

lemma GVR_eqI: "GVR_GroupVersion a = GVR_GroupVersion b \<Longrightarrow> gvr_resource a = gvr_resource b \<Longrightarrow> a = b"
  by (cases a; cases b) (simp add: GVR_GroupVersion_def)

lemma expected_step:
  assumes old: "expected clients d ps gv name (find_storage m gv name)"
    and r: "installable clients r" and ps: "\<forall>p \<in> set ps. installable clients p"
    and new: "sr_GVR r \<notin> set (map sr_GVR ps)"
    and m': "install_resource gs clients d r m = Inr m'"
  shows "expected clients d (ps @ [r]) gv name (find_storage m' gv name)"
proof -
  let ?n = "gvr_resource (sr_GVR r)" and ?s = "''/status''"
  have slash: "CHR ''/'' \<notin> set ?n" and slashes: "\<And>p. p \<in> set ps \<Longrightarrow> CHR ''/'' \<notin> set (gvr_resource (sr_GVR p))"
    using r ps by (auto simp: installable_def)
  have differ: "gvr_resource (sr_GVR p) \<noteq> ?n" if "p \<in> set ps" "GVR_GroupVersion (sr_GVR p) = GVR_GroupVersion (sr_GVR r)" for p
    using that(1) new GVR_eqI [OF that(2)] by (metis imageI set_map)
  have find: "find_storage m' gv name =
      (if GVR_GroupVersion (sr_GVR r) = gv \<and> sr_Status r \<and> name = ?n @ ?s
       then Some (Status_Storage (NewStatus (storage_of clients d r)))
       else if GVR_GroupVersion (sr_GVR r) = gv \<and> name = ?n then Some (Resource_Storage (storage_of clients d r))
       else find_storage m gv name)"
    using m' unfolding install_resource_ok [OF r] by (auto split: if_splits)
  show ?thesis
  proof (cases "GVR_GroupVersion (sr_GVR r) = gv \<and> (name = ?n \<or> sr_Status r \<and> name = ?n @ ?s)")
    case True
    with find no_status_name [OF slash, of ?n] show ?thesis by (auto simp: expected_def)
  next
    case False
    with find have "find_storage m' gv name = find_storage m gv name" by auto
    with old False show ?thesis by (auto simp: expected_def split: option.splits)
  qed
qed

lemma install_storages_ok:
  assumes "\<forall>gv name. expected clients d ps gv name (find_storage m gv name)"
    and "\<forall>r \<in> set (ps @ rs). installable clients r" and "distinct (map sr_GVR (ps @ rs))"
  shows "\<exists>m'. install_storages gs clients d rs m = Inr m' \<and>
    (\<forall>gv name. expected clients d (ps @ rs) gv name (find_storage m' gv name))"
  using assms
proof (induction rs arbitrary: ps m)
  case Nil
  then show ?case by simp
next
  case (Cons r rs)
  obtain m1 where m1: "install_resource gs clients d r m = Inr m1"
    using install_resource_ok [of clients r gs d m] Cons.prems(2) by simp
  have "\<forall>gv name. expected clients d (ps @ [r]) gv name (find_storage m1 gv name)"
    using expected_step [OF _ _ _ _ m1] Cons.prems by auto
  from Cons.IH [OF this] Cons.prems(2,3) m1 show ?case by auto
qed

lemma put_storage_keys: "distinct (keys m) \<Longrightarrow> distinct (keys (put_storage gv name st m))"
  by (simp add: put_storage_def distinct_update)

lemma install_storages_keys:
  "install_storages gs clients d rs m = Inr m' \<Longrightarrow> distinct (keys m) \<Longrightarrow> distinct (keys m')"
proof (induction rs arbitrary: m)
  case (Cons r rs)
  then obtain m1 where "install_resource gs clients d r m = Inr m1" and rest: "install_storages gs clients d rs m1 = Inr m'"
    by (auto split: sum.splits)
  then have "distinct (keys m1)"
    using Cons.prems(2) by (auto simp: install_resource_def Let_def put_storage_keys split: sum.splits if_splits)
  with Cons.IH [OF rest] show ?case by simp
qed simp

definition prefix_of :: "group_version \<Rightarrow> api_prefix" where
  "prefix_of gv = (if gv_group gv = '''' then DefaultLegacyAPIPrefix else APIGroupPrefix)"

lemma install_groups_ok:
  assumes "\<And>gv p sm. \<exists>x. inst gv p sm = Inr x"
  shows "\<exists>srv'. install_groups gvs inst m srv = Inr srv' \<and>
    gs_rest srv' = gs_rest srv @ map (\<lambda>(gv, sm). (gv, prefix_of gv, sm)) m \<and>
    gs_groups srv' = gs_groups srv @ map (\<lambda>gv. \<lparr>ag_Name = gv_group gv, ag_Versions = [gv], ag_PreferredVersion = gv\<rparr>)
      (filter (\<lambda>gv. gv_group gv \<noteq> '''') (keys m))"
proof (induction m arbitrary: srv)
  case Nil
  then show ?case by simp
next
  case (Cons t m)
  obtain gv sm where t: "t = (gv, sm)" by fastforce
  obtain x where x: "inst gv (prefix_of gv) sm = Inr x" using assms by metis
  obtain srv1 where "installGroupVersion gvs inst srv gv (prefix_of gv) sm = Inr srv1"
    and "gs_rest srv1 = gs_rest srv @ [(gv, prefix_of gv, sm)]"
    and "gs_groups srv1 = gs_groups srv @ (if gv_group gv \<noteq> ''''
      then [\<lparr>ag_Name = gv_group gv, ag_Versions = [gv], ag_PreferredVersion = gv\<rparr>] else [])"
    using x by (cases "gv_group gv = ''''") (auto simp: installGroupVersion_def Let_def prefix_of_def)
  with Cons.IH [of srv1] t show ?case by (auto simp: prefix_of_def Let_def)
qed

lemma install_works:
  assumes "\<forall>r \<in> set rs. installable clients r" and "distinct (map sr_GVR rs)"
    and "\<And>gv p sm. \<exists>x. lib_InstallREST lib (newScheme rs) gv p sm = Inr x"
  shows "\<exists>m srv'. installResources lib srv rs clients d = Inr srv' \<and> distinct (keys m) \<and>
    gs_rest srv' = gs_rest srv @ map (\<lambda>(gv, sm). (gv, prefix_of gv, sm)) m \<and>
    (\<forall>gv name. expected clients d rs gv name (find_storage m gv name)) \<and>
    gs_groups srv' = gs_groups srv @ map (\<lambda>gv. \<lparr>ag_Name = gv_group gv, ag_Versions = [gv], ag_PreferredVersion = gv\<rparr>)
      (filter (\<lambda>gv. gv_group gv \<noteq> '''') (keys m))"
proof -
  have "\<forall>gv name. expected clients d [] gv name (find_storage [] gv name)" by (simp add: expected_def find_storage_def)
  from install_storages_ok [OF this, of rs "lib_gvrString lib"] assms(1,2)
  obtain m where m: "install_storages (lib_gvrString lib) clients d rs [] = Inr m"
    and exp: "\<forall>gv name. expected clients d rs gv name (find_storage m gv name)" by auto
  have "distinct (keys m)" using install_storages_keys [OF m] by simp
  with install_groups_ok [of "lib_InstallREST lib (newScheme rs)" "lib_gvString lib" m srv, OF assms(3)] m exp
  show ?thesis by (auto simp: installResources_def)
qed

section \<open>Properties\<close>


definition demo_libs :: "('w, 'h, unit) server_libs" where
  "demo_libs = \<lparr>lib_gvrString = demo_gvrString, lib_gvString = gv_version,
     lib_InstallREST = (\<lambda>_ _ _ _. Inr ()), lib_NewServer = (\<lambda>_ _. None)\<rparr>"

definition empty_server :: "string \<Rightarrow> ('w, 'h, unit) generic_server" where
  "empty_server address = \<lparr>gs_external_address = address, gs_rest = [], gs_aggregated = [], gs_legacy_aggregated = [],
     gs_groups = [], gs_group_services = [], gs_legacy_roots = 0\<rparr>"


end
