(* ===== verification/Server.thy ===== *)
theory Server
  imports Install
begin

text \<open>
  \<open>pkg/apiserver/server.go\<close>: the server whose member clusters change at run time. It keeps the
  members with what each was last seen to serve, the merged resources, the current handler, and the
  cancel function of the context under which the watches of that handler run. Every change of the state
  is made under the server's mutex, so the operations are functions from state to state; that
  \<open>SetCluster\<close> asks the new member what it serves before it takes the mutex is treated in \<open>Child\<close>.
\<close>

section \<open>Definitions\<close>

record server_options =
  opt_Hostname :: string
  opt_Port :: int
  opt_TLSCertFile :: string
  opt_TLSKeyFile :: string
  opt_ResyncInterval :: int

definition second :: int where
  "second = 1000000000"

definition options_defaults :: "server_options \<Rightarrow> server_options" where
  "options_defaults opts =
     (let opts = (if opt_Hostname opts = '''' then opts\<lparr>opt_Hostname := ''0.0.0.0''\<rparr> else opts);
          opts = (if opt_Port opts = 0 then opts\<lparr>opt_Port := 6443\<rparr> else opts)
      in if opt_ResyncInterval opts = 0 then opts\<lparr>opt_ResyncInterval := 30 * second\<rparr> else opts)"

definition options_URL :: "server_options \<Rightarrow> string" where
  "options_URL opts = sprintf ''https://%s:%d'' [opt_Hostname opts, strconv_Itoa (opt_Port opts)]"

text \<open>\<open>discovery.DiscoveryInterface\<close>, of which \<open>ServerGroupsAndResources\<close> is called.\<close>

type_synonym 'w discovery_client = "('w, APIResourceList list) io"

record ('w, 'h) memberCluster =
  mc_client :: "('w, 'h) dynamic_client"
  mc_discovery :: "'w discovery_client"
  mc_selectors :: "APISelector list"
  mc_resources :: "ServedResource list"

type_synonym group_parser = "string \<Rightarrow> group_version result"

text \<open>\<open>memberCluster.resolve\<close>: whether the resources changed, the updated member.\<close>

definition member_resolve ::
  "group_parser \<Rightarrow> ('w, 'h) memberCluster \<Rightarrow> 'w \<Rightarrow> (bool result \<times> ('w, 'h) memberCluster) \<times> 'w" where
  "member_resolve parse m w =
     (case mc_discovery m w of
        (Inl err, w') \<Rightarrow> ((Inl (Wrapf ''discovering server resources: %w'' [] err), m), w')
      | (Inr resourceLists, w') \<Rightarrow>
          (case FromDiscovery parse resourceLists of
             Inl err \<Rightarrow> ((Inl (Wrapf ''reading discovery: %w'' [] err), m), w')
           | Inr found \<Rightarrow>
               (let resources = Filter found (mc_selectors m)
                in if resources = mc_resources m then ((Inr False, m), w')
                   else ((Inr True, m\<lparr>mc_resources := resources\<rparr>), w'))))"

datatype ('w, 'h, 'd) handler =
    NotFoundHandler
  | Serving "('w, 'h, 'd) generic_server"

text \<open>
  \<open>sv_resources\<close> is \<open>None\<close> for the nil slice. Contexts are numbered; \<open>sv_next\<close> is the next number and
  \<open>sv_cancelled\<close> lists the contexts that have been cancelled.
\<close>

record ('w, 'h, 'd) server =
  sv_opts :: server_options
  sv_handler :: "('w, 'h, 'd) handler"
  sv_members :: "(string \<times> ('w, 'h) memberCluster) list"
  sv_resources :: "ServedResource list option"
  sv_stopWatches :: "nat option"
  sv_next :: nat
  sv_cancelled :: "nat set"

definition server_New :: "server_options \<Rightarrow> ('w, 'h, 'd) server" where
  "server_New opts =
     \<lparr>sv_opts = options_defaults opts, sv_handler = NotFoundHandler, sv_members = [], sv_resources = None,
      sv_stopWatches = None, sv_next = 0, sv_cancelled = {}\<rparr>"

definition server_URL :: "('w, 'h, 'd) server \<Rightarrow> string" where
  "server_URL s = options_URL (sv_opts s)"

definition swapHandler ::
  "('w, 'h, 'd) handler \<Rightarrow> nat option \<Rightarrow> ('w, 'h, 'd) server \<Rightarrow> ('w, 'h, 'd) server" where
  "swapHandler handler stopWatches s =
     (let s = s\<lparr>sv_handler := handler\<rparr>;
          s = (case sv_stopWatches s of None \<Rightarrow> s | Some c \<Rightarrow> s\<lparr>sv_cancelled := insert c (sv_cancelled s)\<rparr>)
      in s\<lparr>sv_stopWatches := stopWatches\<rparr>)"

definition rebuild ::
  "('w, 'h, 'd) server_libs \<Rightarrow> ('w, 'h, 'd) server \<Rightarrow> go_error option \<times> ('w, 'h, 'd) server" where
  "rebuild lib s =
     (let byCluster = map (\<lambda>(name, member). (name, mc_resources member)) (sv_members s)
      in case Union (lib_gvrString lib) byCluster of
           Inl err \<Rightarrow> (Some (Wrapf ''merging served resources: %w'' [] err), s)
         | Inr resources \<Rightarrow>
             if sv_resources s = Some resources then (None, s)
             else if length resources = 0
             then (None, (swapHandler NotFoundHandler None s)\<lparr>sv_resources := None\<rparr>)
             else (let clients = map (\<lambda>(name, member). (name, mc_client member)) (sv_members s);
                       ctx = sv_next s;
                       s = s\<lparr>sv_next := Suc ctx\<rparr>
                   in case newGenericServer lib (opt_Hostname (sv_opts s)) (opt_Port (sv_opts s)) resources
                             clients (Some ctx) of
                        Inl err \<Rightarrow> (Some err, s\<lparr>sv_cancelled := insert ctx (sv_cancelled s)\<rparr>)
                      | Inr inner \<Rightarrow>
                          (None, (swapHandler (Serving inner) (Some ctx) s)\<lparr>sv_resources := Some resources\<rparr>)))"

definition SetCluster ::
  "('w, 'h, 'd) server_libs \<Rightarrow> group_parser \<Rightarrow> ('w, 'h, 'd) server \<Rightarrow> string \<Rightarrow> ('w, 'h) dynamic_client
     \<Rightarrow> 'w discovery_client \<Rightarrow> APISelector list \<Rightarrow> 'w \<Rightarrow> (go_error option \<times> ('w, 'h, 'd) server) \<times> 'w" where
  "SetCluster lib parse s name client discoveryClient selectors w =
     (case member_resolve parse
             \<lparr>mc_client = client, mc_discovery = discoveryClient, mc_selectors = selectors, mc_resources = []\<rparr> w of
        ((Inl err, member), w') \<Rightarrow> ((Some (Wrapf ''resolving cluster %q: %w'' [name] err), s), w')
      | ((Inr changed, member), w') \<Rightarrow>
          (rebuild lib (s\<lparr>sv_members := AList.update name member (sv_members s)\<rparr>), w'))"

definition server_Clusters :: "('w, 'h, 'd) server \<Rightarrow> string list" where
  "server_Clusters s = sort_Strings (keys (sv_members s))"

definition RemoveCluster ::
  "('w, 'h, 'd) server_libs \<Rightarrow> ('w, 'h, 'd) server \<Rightarrow> string \<Rightarrow> go_error option \<times> ('w, 'h, 'd) server" where
  "RemoveCluster lib s name = rebuild lib (s\<lparr>sv_members := AList.delete name (sv_members s)\<rparr>)"

text \<open>\<open>ServeHTTP\<close> hands every request to the current handler.\<close>

definition ServeHTTP :: "('w, 'h, 'd) server \<Rightarrow> ('w, 'h, 'd) handler" where
  "ServeHTTP s = sv_handler s"

text \<open>The loop of \<open>resync\<close> over the members; errors are logged and the member kept as it is.\<close>

fun resolve_members ::
  "group_parser \<Rightarrow> (string \<times> ('w, 'h) memberCluster) list \<Rightarrow> 'w
     \<Rightarrow> (bool \<times> (string \<times> ('w, 'h) memberCluster) list) \<times> 'w" where
  "resolve_members parse [] w = ((False, []), w)"
| "resolve_members parse ((name, member) # ms) w =
     (case member_resolve parse member w of ((res, member'), w') \<Rightarrow>
       (case resolve_members parse ms w' of ((changed, ms'), w'') \<Rightarrow>
         (((case res of Inl err \<Rightarrow> changed | Inr memberChanged \<Rightarrow> changed \<or> memberChanged),
           (name, member') # ms'), w'')))"

definition resync ::
  "('w, 'h, 'd) server_libs \<Rightarrow> group_parser \<Rightarrow> ('w, 'h, 'd) server \<Rightarrow> 'w \<Rightarrow> ('w, 'h, 'd) server \<times> 'w" where
  "resync lib parse s w =
     (case resolve_members parse (sv_members s) w of ((changed, members), w') \<Rightarrow>
        (let s = s\<lparr>sv_members := members\<rparr>
         in if \<not> changed then (s, w') else (snd (rebuild lib s), w')))"

section \<open>Specification\<close>

text \<open>What the members offer together.\<close>

definition member_offers :: "('w, 'h, 'd) server \<Rightarrow> (string \<times> ServedResource) list" where
  "member_offers s = offers (map (\<lambda>(name, member). (name, mc_resources member)) (sv_members s))"

definition storage_done :: "('w, 'h) rest_storage \<Rightarrow> nat option" where
  "storage_done st = (case st of Resource_Storage s \<Rightarrow> so_Done (st_opts s)
     | Status_Storage ss \<Rightarrow> so_Done (st_opts (ss_parent ss)))"

definition serves_under :: "nat option \<Rightarrow> ('w, 'h, 'd) handler \<Rightarrow> bool" where
  "serves_under d h \<longleftrightarrow>
     (case h of NotFoundHandler \<Rightarrow> d = None
      | Serving g \<Rightarrow> d \<noteq> None \<and> (\<forall>(gv, p, sm) \<in> set (gs_rest g). \<forall>(n, st) \<in> set sm. storage_done st = d))"

text \<open>
  The state of a server is in order: it serves nothing exactly when it has no merged resources; of
  all contexts it has ever made exactly the one of the current handler is live, and the storages of
  that handler watch that context.
\<close>

definition server_ok :: "('w, 'h, 'd) server \<Rightarrow> bool" where
  "server_ok s \<longleftrightarrow> wf_map (sv_members s) \<and>
     (sv_resources s = None \<longleftrightarrow> sv_handler s = NotFoundHandler) \<and> sv_resources s \<noteq> Some [] \<and>
     serves_under (sv_stopWatches s) (sv_handler s) \<and>
     {..<sv_next s} - sv_cancelled s = set_option (sv_stopWatches s) \<and> sv_cancelled s \<subseteq> {..<sv_next s}"

text \<open>The merged resources are the union of what the members were last seen to serve.\<close>

definition in_sync :: "('w, 'h, 'd) server_libs \<Rightarrow> ('w, 'h, 'd) server \<Rightarrow> bool" where
  "in_sync lib s \<longleftrightarrow> consistent (member_offers s) \<and>
     sv_resources s = (let u = union_spec (lib_gvrString lib) (member_offers s) in if u = [] then None else Some u)"

text \<open>An operation on the server, with whatever the discovery of the members answers.\<close>

inductive server_step ::
  "('w, 'h, 'd) server_libs \<Rightarrow> group_parser \<Rightarrow> ('w, 'h, 'd) server \<Rightarrow> ('w, 'h, 'd) server \<Rightarrow> bool"
  for lib parse where
  step_set: "SetCluster lib parse s name client disc selectors w = ((err, s'), w') \<Longrightarrow> server_step lib parse s s'"
| step_remove: "RemoveCluster lib s name = (err, s') \<Longrightarrow> server_step lib parse s s'"
| step_resync: "resync lib parse s w = (s', w') \<Longrightarrow> server_step lib parse s s'"

text \<open>
  What the reconciler relies on: a registry of named clusters, where a successful registration adds
  the name, a failed one adds at most it, and a removal takes the name away, whatever it returns.
\<close>

locale cluster_registry =
  fixes register :: "'s \<Rightarrow> string \<Rightarrow> 'arg \<Rightarrow> 'w \<Rightarrow> (go_error option \<times> 's) \<times> 'w"
    and remove :: "'s \<Rightarrow> string \<Rightarrow> go_error option \<times> 's" and names :: "'s \<Rightarrow> string list"
  assumes register_ok: "register s n a w = ((None, s'), w') \<Longrightarrow> set (names s') = insert n (set (names s))"
    and register_failed: "register s n a w = ((Some e, s'), w') \<Longrightarrow>
      set (names s) \<subseteq> set (names s') \<and> set (names s') \<subseteq> insert n (set (names s))"
    and remove_name: "set (names (snd (remove s n))) = set (names s) - {n}"
begin

lemma register_grows: "register s n a w = ((e, s'), w') \<Longrightarrow> set (names s) \<subseteq> set (names s')"
  using register_ok register_failed by (cases e) fast+

fun remove_all :: "'s \<Rightarrow> string list \<Rightarrow> 's" where
  "remove_all s [] = s"
| "remove_all s (n # ns) = remove_all (snd (remove s n)) ns"

lemma remove_all_names: "set (names (remove_all s ns)) = set (names s) - set ns"
  by (induction ns arbitrary: s) (auto simp: remove_name)

end

section \<open>Lemmas\<close>

lemma swapHandler_fields [simp]:
  "sv_handler (swapHandler h c s) = h" "sv_stopWatches (swapHandler h c s) = c"
  "sv_members (swapHandler h c s) = sv_members s" "sv_next (swapHandler h c s) = sv_next s"
  "sv_opts (swapHandler h c s) = sv_opts s"
  "sv_cancelled (swapHandler h c s) = sv_cancelled s \<union> set_option (sv_stopWatches s)"
  by (auto simp: swapHandler_def Let_def split: option.splits)

lemma rebuild_members [simp]: "sv_members (snd (rebuild lib s)) = sv_members s"
  by (simp add: rebuild_def Let_def split: sum.splits)

subsection \<open>The storages of a handler watch its context\<close>

definition done_all :: "nat option \<Rightarrow> ('w, 'h) by_group_version \<Rightarrow> bool" where
  "done_all d m \<longleftrightarrow> (\<forall>(gv, sm) \<in> set m. \<forall>(n, st) \<in> set sm. storage_done st = d)"

lemma set_update_subset: "set (AList.update k v xs) \<subseteq> insert (k, v) (set xs)"
  by (induction xs) auto

lemma done_all_put:
  assumes "done_all d m" and "storage_done st = d"
  shows "done_all d (put_storage gv name st m)"
proof -
  let ?old = "case map_of m gv of None \<Rightarrow> [] | Some sm \<Rightarrow> sm"
  have "\<forall>(n, s) \<in> set ?old. storage_done s = d"
  proof (cases "map_of m gv")
    case (Some sm)
    from map_of_SomeD [OF this] assms(1) Some show ?thesis by (auto simp: done_all_def)
  qed simp
  with assms(2) have "\<forall>(n, s) \<in> insert (name, st) (set ?old). storage_done s = d" by blast
  then have "\<forall>(n, s) \<in> set (AList.update name st ?old). storage_done s = d"
    using set_update_subset [of name st ?old] by blast
  with assms(1) have "\<forall>(g, sm) \<in> insert (gv, AList.update name st ?old) (set m). \<forall>(n, st) \<in> set sm. storage_done st = d"
    by (simp add: done_all_def)
  then show ?thesis
    using set_update_subset [of gv "AList.update name st ?old" m]
    unfolding done_all_def put_storage_def by blast
qed

lemma done_all_install_resource:
  assumes "done_all d m" and "install_resource gs clients d r m = Inr m'"
  shows "done_all d m'"
proof -
  obtain rc store where new: "storage_New \<lparr>so_GVR = sr_GVR r, so_Kind = sr_Kind r, so_Namespaced = sr_Namespaced r,
      so_Singular = sr_Singular r, so_Clusters = rc, so_Done = d\<rparr> = Inr store" and
    m': "m' = (let m1 = put_storage (GVR_GroupVersion (sr_GVR r)) (gvr_resource (sr_GVR r)) (Resource_Storage store) m
        in if sr_Status r then put_storage (GVR_GroupVersion (sr_GVR r)) (gvr_resource (sr_GVR r) @ ''/status'')
             (Status_Storage (NewStatus store)) m1 else m1)"
    using assms(2) by (auto simp: install_resource_def Let_def split: sum.splits)
  from new have "so_Done (st_opts store) = d" by (auto simp: storage_New_Inr)
  then have "storage_done (Resource_Storage store) = d" and "storage_done (Status_Storage (NewStatus store)) = d"
    by (simp_all add: storage_done_def NewStatus_def)
  with assms(1) show ?thesis by (simp add: m' Let_def done_all_put)
qed

lemma done_all_install_storages:
  "done_all d m \<Longrightarrow> install_storages gs clients d rs m = Inr m' \<Longrightarrow> done_all d m'"
proof (induction rs arbitrary: m)
  case (Cons r rs)
  then obtain m1 where "install_resource gs clients d r m = Inr m1" and "install_storages gs clients d rs m1 = Inr m'"
    by (auto split: sum.splits)
  with Cons.IH done_all_install_resource [OF Cons.prems(1)] show ?case by blast
qed simp

lemma install_groups_rest:
  "install_groups gvs inst m srv = Inr srv' \<Longrightarrow>
     gs_rest srv' = gs_rest srv @ map (\<lambda>(gv, sm). (gv, prefix_of gv, sm)) m"
proof (induction m arbitrary: srv)
  case (Cons t m)
  obtain gv sm where t: "t = (gv, sm)" by fastforce
  with Cons.prems obtain srv1 where one: "installGroupVersion gvs inst srv gv (prefix_of gv) sm = Inr srv1"
    and rest: "install_groups gvs inst m srv1 = Inr srv'"
    by (auto simp: prefix_of_def Let_def split: sum.splits)
  have "gs_rest srv1 = gs_rest srv @ [(gv, prefix_of gv, sm)]"
    using one by (auto simp: installGroupVersion_def Let_def split: sum.splits if_splits)
  with Cons.IH [OF rest] t show ?case by simp
qed simp

lemma newGenericServer_serves_under:
  assumes "newGenericServer lib host port rs clients (Some c) = Inr g"
  shows "serves_under (Some c) (Serving g)"
proof -
  from assms obtain m srv where m: "install_storages (lib_gvrString lib) clients (Some c) rs [] = Inr m"
    and g: "install_groups (lib_gvString lib) (lib_InstallREST lib (newScheme rs)) m srv = Inr g"
    and srv: "gs_rest srv = []"
    by (auto simp: newGenericServer_def installResources_def Let_def split: option.splits sum.splits)
  have "done_all (Some c) m" using done_all_install_storages [OF _ m] by (simp add: done_all_def)
  then show ?thesis
    unfolding serves_under_def handler.case install_groups_rest [OF g] srv
    by (auto simp: done_all_def)
qed

subsection \<open>Rebuilding\<close>

lemma rebuild_ok:
  assumes "server_ok s"
  shows "server_ok (snd (rebuild lib s))"
proof -
  let ?u = "Union (lib_gvrString lib) (map (\<lambda>(name, member). (name, mc_resources member)) (sv_members s))"
  let ?c = "sv_next s"
  have live: "{..<?c} - sv_cancelled s = set_option (sv_stopWatches s)" and sub: "sv_cancelled s \<subseteq> {..<?c}"
    using assms by (simp_all add: server_ok_def)
  then have stop: "set_option (sv_stopWatches s) \<subseteq> {..<?c}" by blast
  have swap: "{..<Suc ?c} - (sv_cancelled s \<union> set_option (sv_stopWatches s)) = {?c}"
    using live sub by auto
  show ?thesis
  proof (cases ?u)
    case (Inl err)
    with assms show ?thesis by (simp add: rebuild_def)
  next
    case (Inr rs)
    consider "sv_resources s = Some rs" | "rs = []" "sv_resources s \<noteq> Some rs"
      | "rs \<noteq> []" "sv_resources s \<noteq> Some rs" by blast
    then show ?thesis
    proof cases
      case 1
      with Inr assms show ?thesis by (simp add: rebuild_def)
    next
      case 2
      have "{..<?c} - (sv_cancelled s \<union> set_option (sv_stopWatches s)) = {}" using live by blast
      with 2 Inr assms sub stop show ?thesis by (simp add: rebuild_def server_ok_def serves_under_def)
    next
      case 3
      let ?g = "newGenericServer lib (opt_Hostname (sv_opts s)) (opt_Port (sv_opts s)) rs
          (map (\<lambda>(name, member). (name, mc_client member)) (sv_members s)) (Some ?c)"
      show ?thesis
      proof (cases ?g)
        case (Inl err)
        have "{..<Suc ?c} - insert ?c (sv_cancelled s) = set_option (sv_stopWatches s)" using live sub by auto
        with Inl 3 Inr assms sub show ?thesis by (auto simp: rebuild_def server_ok_def Let_def)
      next
        case g: (Inr g)
        with 3 Inr assms sub stop swap newGenericServer_serves_under [OF g] show ?thesis
          by (auto simp: rebuild_def server_ok_def Let_def)
      qed
    qed
  qed
qed

lemma server_ok_members:
  "server_ok s \<Longrightarrow> wf_map ms \<Longrightarrow> server_ok (s\<lparr>sv_members := ms\<rparr>)"
  by (simp add: server_ok_def)

lemma resolve_members_keys:
  "resolve_members parse ms w = ((changed, ms'), w') \<Longrightarrow> keys ms' = keys ms"
  by (induction ms arbitrary: changed ms' w) (auto split: prod.splits)

lemma SetCluster_ok:
  assumes "server_ok s" and "SetCluster lib parse s name client disc selectors w = ((err, s'), w')"
  shows "server_ok s'"
proof -
  have "server_ok (snd (rebuild lib (s\<lparr>sv_members := AList.update name m (sv_members s)\<rparr>)))" for m
    using assms(1) by (intro rebuild_ok server_ok_members) (simp_all add: server_ok_def distinct_update)
  with assms show ?thesis by (auto simp: SetCluster_def split: prod.splits sum.splits) (metis snd_conv)
qed

lemma server_ok_step: "server_ok s \<Longrightarrow> server_step lib parse s s' \<Longrightarrow> server_ok s'"
proof (erule server_step.cases, goal_cases)
  case (1 s1 name client disc selectors w err s2 w')
  then show ?case using SetCluster_ok [of s1 lib parse name client disc selectors w err s2 w'] by simp
next
  case (2 s1 name err s2)
  have "server_ok (snd (rebuild lib (s1\<lparr>sv_members := AList.delete name (sv_members s1)\<rparr>)))"
    using 2 by (intro rebuild_ok server_ok_members) (simp_all add: server_ok_def distinct_delete)
  with 2 show ?case by (simp add: RemoveCluster_def)
next
  case (3 s1 w s2 w')
  obtain changed ms w1 where r: "resolve_members parse (sv_members s1) w = ((changed, ms), w1)" by (metis surj_pair)
  have ok: "server_ok (s1\<lparr>sv_members := ms\<rparr>)"
    using 3 resolve_members_keys [OF r] by (intro server_ok_members) (simp_all add: server_ok_def)
  with rebuild_ok [OF ok, of lib] 3 r show ?case by (auto simp: resync_def Let_def split: if_splits)
qed

interpretation server: inductive_invariant "\<lambda>s. s = server_New opts" "server_step lib parse" server_ok
  for opts lib parse
proof unfold_locales
  show "server_ok s" if "s = server_New opts" for s
    using that by (simp add: server_New_def server_ok_def serves_under_def)
qed (rule server_ok_step)

lemma rebuild_success:
  assumes "server_ok s" and "rebuild lib s = (None, s')"
  shows "consistent (member_offers s) \<and>
    sv_resources s' = (let u = union_spec (lib_gvrString lib) (member_offers s) in if u = [] then None else Some u)"
proof -
  let ?bc = "map (\<lambda>(name, member). (name, mc_resources member)) (sv_members s)"
  have con: "consistent (offers ?bc)"
    using assms(2) Union_eq [of ?bc "lib_gvrString lib"] by (auto simp: rebuild_def Let_def isl_def split: if_splits)
  then have u: "Union (lib_gvrString lib) ?bc = Inr (union_spec (lib_gvrString lib) (offers ?bc))"
    using Union_eq [of ?bc "lib_gvrString lib"] by simp
  have "sv_resources s \<noteq> Some []" using assms(1) by (simp add: server_ok_def)
  with con u assms(2) show ?thesis
    by (auto simp: rebuild_def member_offers_def Let_def split: if_splits sum.splits)
qed

lemma rebuild_conflict:
  assumes "\<not> consistent (member_offers s)"
  shows "\<exists>err. rebuild lib s = (Some err, s)"
  using assms Union_eq [of "map (\<lambda>(name, member). (name, mc_resources member)) (sv_members s)" "lib_gvrString lib"]
  by (auto simp: rebuild_def member_offers_def isl_def)

lemma rebuild_in_sync:
  assumes "server_ok s" and "rebuild lib s = (None, s')"
  shows "in_sync lib s'"
proof -
  have "sv_members s' = sv_members s" using rebuild_members [of lib s] assms(2) by simp
  then have "member_offers s' = member_offers s" by (simp add: member_offers_def)
  with rebuild_success [OF assms] show ?thesis by (simp add: in_sync_def)
qed

lemma SetCluster_in_sync:
  assumes "server_ok s" and "SetCluster lib parse s name client disc selectors w = ((None, s'), w')"
  shows "in_sync lib s'"
proof -
  obtain m where "rebuild lib (s\<lparr>sv_members := AList.update name m (sv_members s)\<rparr>) = (None, s')"
    using assms(2) by (auto simp: SetCluster_def split: prod.splits sum.splits)
  moreover have "server_ok (s\<lparr>sv_members := AList.update name m (sv_members s)\<rparr>)"
    using assms(1) by (simp add: server_ok_def distinct_update)
  ultimately show ?thesis by (rule rebuild_in_sync [rotated])
qed

lemma RemoveCluster_in_sync:
  assumes "server_ok s" and "RemoveCluster lib s name = (None, s')"
  shows "in_sync lib s'"
proof -
  have "server_ok (s\<lparr>sv_members := AList.delete name (sv_members s)\<rparr>)"
    using assms(1) by (simp add: server_ok_def distinct_delete)
  then show ?thesis using assms(2) unfolding RemoveCluster_def by (rule rebuild_in_sync)
qed

text \<open>A server without members serves nothing.\<close>

definition idle_ok :: "('w, 'h, 'd) server \<Rightarrow> bool" where
  "idle_ok s \<longleftrightarrow> server_ok s \<and> (sv_members s = [] \<longrightarrow> sv_resources s = None)"

lemma idle_in_sync: "idle_ok s \<Longrightarrow> sv_members s = [] \<Longrightarrow> in_sync lib s"
  by (simp add: idle_ok_def in_sync_def member_offers_def offers_def union_spec_def consistent_def)

lemma rebuild_idle:
  assumes "server_ok s" and "sv_members s = []"
  shows "sv_resources (snd (rebuild lib s)) = None"
proof -
  have "Union (lib_gvrString lib) [] = Inr []" by (simp add: Union_def sort_Slice_def)
  moreover have "sv_resources s \<noteq> Some []" using assms(1) by (simp add: server_ok_def)
  ultimately show ?thesis using assms(2) by (simp add: rebuild_def)
qed

lemma idle_ok_step: "idle_ok s \<Longrightarrow> server_step lib parse s s' \<Longrightarrow> idle_ok s'"
proof -
  assume idle: "idle_ok s" and step: "server_step lib parse s s'"
  then have ok: "server_ok s'" using server_ok_step by (auto simp: idle_ok_def)
  have "sv_resources s' = None" if "sv_members s' = []"
    using step
  proof cases
    case (step_set name client disc selectors w err w')
    obtain res m w1 where r: "member_resolve parse \<lparr>mc_client = client, mc_discovery = disc, mc_selectors = selectors,
        mc_resources = []\<rparr> w = ((res, m), w1)" by (metis surj_pair)
    show ?thesis
    proof (cases res)
      case (Inl e)
      with step_set r have "s' = s" by (simp add: SetCluster_def)
      with idle that show ?thesis by (simp add: idle_ok_def)
    next
      case (Inr changed)
      with step_set r have "s' = snd (rebuild lib (s\<lparr>sv_members := AList.update name m (sv_members s)\<rparr>))"
        by (simp add: SetCluster_def)
      then have "sv_members s' = AList.update name m (sv_members s)" by simp
      moreover have "AList.update name m (sv_members s) \<noteq> []" by (cases "sv_members s") auto
      ultimately show ?thesis using that by simp
    qed
  next
    case (step_remove name err)
    let ?s = "s\<lparr>sv_members := AList.delete name (sv_members s)\<rparr>"
    have s': "s' = snd (rebuild lib ?s)" using step_remove by (simp add: RemoveCluster_def)
    have "server_ok ?s" using idle by (simp add: idle_ok_def server_ok_def distinct_delete)
    moreover have "sv_members ?s = []" using that rebuild_members [of lib ?s] by (simp only: s')
    ultimately show ?thesis unfolding s' by (rule rebuild_idle)
  next
    case (step_resync w w')
    obtain changed ms w1 where r: "resolve_members parse (sv_members s) w = ((changed, ms), w1)" by (metis surj_pair)
    have "sv_members s' = ms" using step_resync r by (auto simp: resync_def Let_def split: if_splits)
    with that resolve_members_keys [OF r] have "sv_members s = []" by simp
    moreover from this r have "\<not> changed \<and> ms = []" by simp
    ultimately show ?thesis using step_resync r idle by (auto simp: resync_def idle_ok_def)
  qed
  with ok show "idle_ok s'" by (simp add: idle_ok_def)
qed

interpretation idle: inductive_invariant "\<lambda>s. s = server_New opts" "server_step lib parse" idle_ok
  for opts lib parse
proof unfold_locales
  show "idle_ok s" if "s = server_New opts" for s
    using that server.init_invar [OF that] by (simp add: idle_ok_def server_New_def)
qed (rule idle_ok_step)

lemma SetCluster_names:
  assumes "SetCluster lib parse s name client disc selectors w = ((err, s'), w')"
  shows "set (server_Clusters s) \<subseteq> set (server_Clusters s') \<and>
    set (server_Clusters s') \<subseteq> insert name (set (server_Clusters s)) \<and>
    (err = None \<longrightarrow> name \<in> set (server_Clusters s'))"
proof -
  obtain res m w1 where r: "member_resolve parse \<lparr>mc_client = client, mc_discovery = disc, mc_selectors = selectors,
      mc_resources = []\<rparr> w = ((res, m), w1)" by (metis surj_pair)
  show ?thesis
  proof (cases res)
    case (Inl e)
    with assms r show ?thesis by (auto simp: SetCluster_def)
  next
    case (Inr changed)
    with assms r have "s' = snd (rebuild lib (s\<lparr>sv_members := AList.update name m (sv_members s)\<rparr>))"
      by (auto simp: SetCluster_def)
    then have "sv_members s' = AList.update name m (sv_members s)" by simp
    then show ?thesis by (auto simp: server_Clusters_def dom_update)
  qed
qed

definition set_cluster ::
  "('w, 'h, 'd) server_libs \<Rightarrow> group_parser \<Rightarrow> ('w, 'h, 'd) server \<Rightarrow> string
     \<Rightarrow> ('w, 'h) dynamic_client \<times> 'w discovery_client \<times> APISelector list \<Rightarrow> 'w
     \<Rightarrow> (go_error option \<times> ('w, 'h, 'd) server) \<times> 'w" where
  "set_cluster lib parse s name arg w =
     (case arg of (client, disc, selectors) \<Rightarrow> SetCluster lib parse s name client disc selectors w)"

lemma set_cluster_names:
  assumes "set_cluster lib parse s n a w = ((err, s'), w')"
  shows "set (server_Clusters s) \<subseteq> set (server_Clusters s') \<and>
    set (server_Clusters s') \<subseteq> insert n (set (server_Clusters s)) \<and> (err = None \<longrightarrow> n \<in> set (server_Clusters s'))"
proof -
  obtain client disc selectors where "a = (client, disc, selectors)" by (cases a)
  with assms show ?thesis by (intro SetCluster_names) (simp add: set_cluster_def)
qed

interpretation registry: cluster_registry "set_cluster lib parse" "RemoveCluster lib" server_Clusters
  for lib parse
proof unfold_locales
  show "set (server_Clusters s') = insert n (set (server_Clusters s))"
    if "set_cluster lib parse s n a w = ((None, s'), w')" for s n a w s' w'
    using set_cluster_names [OF that] by blast
  show "set (server_Clusters s) \<subseteq> set (server_Clusters s') \<and> set (server_Clusters s') \<subseteq> insert n (set (server_Clusters s))"
    if "set_cluster lib parse s n a w = ((Some e, s'), w')" for s n a w e s' w'
    using set_cluster_names [OF that] by blast
  show "set (server_Clusters (snd (RemoveCluster lib s n))) = set (server_Clusters s) - {n}" for s n
    by (simp add: RemoveCluster_def server_Clusters_def) (auto simp: AList.delete_eq)
qed

lemma map_update_same:
  "map_of xs k = Some m \<Longrightarrow> f v = f m \<Longrightarrow>
     map (\<lambda>(n, x). (n, f x)) (AList.update k v xs) = map (\<lambda>(n, x). (n, f x)) xs"
  by (induction xs) auto

lemma rebuild_error_handler: "rebuild lib s = (Some e, s') \<Longrightarrow> sv_handler s' = sv_handler s"
  by (auto simp: rebuild_def Let_def split: sum.splits if_splits)

text \<open>A handler that is replaced leaves a cancelled context behind.\<close>

lemma rebuild_cancels:
  "sv_handler (snd (rebuild lib s)) = sv_handler s \<or> set_option (sv_stopWatches s) \<subseteq> sv_cancelled (snd (rebuild lib s))"
  by (auto simp: rebuild_def Let_def split: sum.splits)

lemma step_cancels:
  assumes "server_step lib parse s s'" and "sv_handler s' \<noteq> sv_handler s"
  shows "set_option (sv_stopWatches s) \<subseteq> sv_cancelled s'"
  using assms(1)
proof cases
  case (step_set name client disc selectors w err w')
  obtain res m w1 where r: "member_resolve parse \<lparr>mc_client = client, mc_discovery = disc, mc_selectors = selectors,
      mc_resources = []\<rparr> w = ((res, m), w1)" by (metis surj_pair)
  with step_set assms(2) have "s' = snd (rebuild lib (s\<lparr>sv_members := AList.update name m (sv_members s)\<rparr>))"
    by (cases res) (auto simp: SetCluster_def)
  with rebuild_cancels [of lib "s\<lparr>sv_members := AList.update name m (sv_members s)\<rparr>"] assms(2) show ?thesis by auto
next
  case (step_remove name err)
  with rebuild_cancels [of lib "s\<lparr>sv_members := AList.delete name (sv_members s)\<rparr>"] assms(2) show ?thesis
    by (auto simp: RemoveCluster_def)
next
  case (step_resync w w')
  obtain changed ms w1 where r: "resolve_members parse (sv_members s) w = ((changed, ms), w1)" by (metis surj_pair)
  with step_resync assms(2) have "s' = snd (rebuild lib (s\<lparr>sv_members := ms\<rparr>))"
    by (auto simp: resync_def Let_def split: if_splits)
  with rebuild_cancels [of lib "s\<lparr>sv_members := ms\<rparr>"] assms(2) show ?thesis by auto
qed

lemma in_member_offers:
  "(c, r) \<in> set (member_offers s) \<longleftrightarrow> (\<exists>m. (c, m) \<in> set (sv_members s) \<and> r \<in> set (mc_resources m))"
  by (force simp: member_offers_def offers_def)

lemma member_offers_update:
  assumes "(c, r) \<in> set (member_offers s)" and "n \<noteq> c"
  shows "(c, r) \<in> set (member_offers (s\<lparr>sv_members := AList.update n m (sv_members s)\<rparr>))"
proof -
  have "(c, x) \<in> set xs \<Longrightarrow> (c, x) \<in> set (AList.update n m xs)" for x xs
    using assms(2) by (induction xs) auto
  with assms(1) show ?thesis by (auto simp: in_member_offers)
qed

section \<open>Properties\<close>


definition any_resource :: "APISelector list" where
  "any_resource = [\<lparr>as_Group = ''*'', as_Resources = [], as_Versions = []\<rparr>]"

definition apps_v1 :: group_parser where
  "apps_v1 s = Inr \<lparr>gv_group = ''apps'', gv_version = ''v1''\<rparr>"

definition demo_discovery :: "'w discovery_client" where
  "demo_discovery w = (Inr [\<lparr>rl_GroupVersion = ''apps/v1'', rl_APIResources = [demo_resource ''deployments'']\<rparr>], w)"

definition demo_options :: server_options where
  "demo_options = \<lparr>opt_Hostname = '''', opt_Port = 0, opt_TLSCertFile = '''', opt_TLSKeyFile = '''', opt_ResyncInterval = 0\<rparr>"

definition with_east :: "(mem, nat, unit) server" where
  "with_east = snd (fst (SetCluster demo_libs apps_v1 (server_New demo_options) ''east'' (mem_client ''east'')
     demo_discovery any_resource web_east))"

lemma reached_with_east: "(server_step demo_libs apps_v1)\<^sup>*\<^sup>* (server_New demo_options) with_east"
proof -
  let ?r = "SetCluster demo_libs apps_v1 (server_New demo_options) ''east'' (mem_client ''east'')
      demo_discovery any_resource web_east"
  have "?r = ((fst (fst ?r), with_east), snd ?r)" by (simp add: with_east_def)
  from step_set [OF this] show ?thesis by (rule r_into_rtranclp)
qed


text \<open>
  A registration or removal that succeeds leaves the server with exactly the union of what all its
  members serve, and succeeds only if they are consistent.
\<close>

theorem server_serves_union:
  assumes "(server_step lib parse)\<^sup>*\<^sup>* (server_New opts) s"
    and "SetCluster lib parse s name client disc selectors w = ((None, s'), w') \<or> RemoveCluster lib s name = (None, s')"
  shows "consistent (member_offers s') \<and>
    sv_resources s' = (let u = union_spec (lib_gvrString lib) (member_offers s') in if u = [] then None else Some u)"
proof -
  have "server_ok s" by (rule server.reached_invar [OF refl assms(1)])
  with assms(2) SetCluster_in_sync RemoveCluster_in_sync have "in_sync lib s'" by metis
  then show ?thesis by (simp only: in_sync_def)
qed

lemma demo_found:
  "FromDiscovery apps_v1 [\<lparr>rl_GroupVersion = ''apps/v1'', rl_APIResources = [demo_resource ''deployments'']\<rparr>] =
     Inr [demo_served ''deployment'' False]"
proof -
  have "CutSuffix ''deployments'' ''/status'' = (''deployments'', False)" by (simp add: CutSuffix_def HasSuffix_def)
  then show ?thesis
    by (simp add: apps_v1_def demo_resource_def discovered_def demo_served_def Contains_def)
qed

lemma any_matches [simp]: "matches g any_resource"
  by (simp add: any_resource_def selector_matches_def)

lemma demo_gvrStrings [simp]: "lib_gvrString demo_libs = demo_gvrString"
  by (simp add: demo_libs_def)

lemma demo_filter: "Filter [demo_served singular status] any_resource = [demo_served singular status]"
  by simp

definition east_member :: "(mem, nat) memberCluster" where
  "east_member = \<lparr>mc_client = mem_client ''east'', mc_discovery = demo_discovery, mc_selectors = any_resource,
     mc_resources = [demo_served ''deployment'' False]\<rparr>"

lemma demo_resolve:
  "member_resolve apps_v1 \<lparr>mc_client = mem_client ''east'', mc_discovery = demo_discovery, mc_selectors = any_resource,
     mc_resources = []\<rparr> w = ((Inr True, east_member), w)"
  by (simp add: member_resolve_def demo_discovery_def demo_found demo_filter east_member_def Let_def del: FromDiscovery.simps)

lemma demo_union:
  "Union demo_gvrString [(c, [demo_served singular status])] = Inr [(demo_served singular status)\<lparr>sr_Clusters := [c]\<rparr>]"
  by (simp add: Union_def merge_resource_def sort_Slice_def sort_clusters_def sort_Strings_def)

lemma east_served:
  "\<exists>s g gv prefix storages name st.
     SetCluster demo_libs apps_v1 (server_New demo_options) ''east'' (mem_client ''east'') demo_discovery any_resource
       web_east = ((None, s), web_east) \<and> sv_members s = [(''east'', east_member)] \<and> sv_resources s \<noteq> Some [] \<and>
     ServeHTTP s = Serving g \<and> (gv, prefix, storages) \<in> set (gs_rest g) \<and> (name, st) \<in> set storages"
proof -
  let ?r = "(demo_served ''deployment'' False)\<lparr>sr_Clusters := [''east'']\<rparr>"
  let ?clients = "[(''east'', mem_client ''east'')]"
  let ?gv = "GVR_GroupVersion (sr_GVR ?r)" and ?name = "gvr_resource (sr_GVR ?r)"
  have "\<forall>r \<in> set [?r]. installable ?clients r"
    by (simp add: installable_def demo_served_def WithResource_def WithKind_def)
  from install_works [OF this, of demo_libs "empty_server (JoinHostPort ''0.0.0.0'' (strconv_Itoa 6443))" "Some 0"]
  obtain m g where g: "newGenericServer demo_libs ''0.0.0.0'' 6443 [?r] ?clients (Some 0) = Inr g"
    and rest: "gs_rest g = map (\<lambda>(gv, sm). (gv, prefix_of gv, sm)) m"
    and "expected ?clients (Some 0) [?r] ?gv ?name (find_storage m ?gv ?name)"
    by (auto simp: newGenericServer_def Let_def demo_libs_def empty_server_def)
  then obtain st where "find_storage m ?gv ?name = Some st"
    by (cases "find_storage m ?gv ?name") (auto simp: expected_def)
  then obtain sm where "(?gv, sm) \<in> set m" and sm: "(?name, st) \<in> set sm"
    by (auto simp: find_storage_def split: option.splits dest: map_of_SomeD)
  then have stored: "(?gv, prefix_of ?gv, sm) \<in> set (gs_rest g)" by (force simp: rest)
  define s0 :: "(mem, nat, unit) server" where
    "s0 = (server_New demo_options)\<lparr>sv_members := [(''east'', east_member)]\<rparr>"
  have s0: "opt_Hostname (sv_opts s0) = ''0.0.0.0''" "opt_Port (sv_opts s0) = 6443" "sv_resources s0 = None"
    "sv_members s0 = [(''east'', east_member)]" "sv_next s0 = 0"
    by (simp_all add: s0_def server_New_def options_defaults_def demo_options_def Let_def)
  have member: "mc_resources east_member = [demo_served ''deployment'' False]" "mc_client east_member = mem_client ''east''"
    by (simp_all add: east_member_def)
  from g have rebuilt: "rebuild demo_libs s0 = (None, (swapHandler (Serving g) (Some 0) (s0\<lparr>sv_next := 1\<rparr>))\<lparr>sv_resources := Some [?r]\<rparr>)"
    by (simp add: rebuild_def demo_union Let_def s0 member)
  have upd: "(server_New demo_options)\<lparr>sv_members := AList.update ''east'' east_member
      (sv_members (server_New demo_options))\<rparr> = s0" by (simp add: s0_def server_New_def)
  have "SetCluster demo_libs apps_v1 (server_New demo_options) ''east'' (mem_client ''east'') demo_discovery any_resource
      web_east = ((None, (swapHandler (Serving g) (Some 0) (s0\<lparr>sv_next := 1\<rparr>))\<lparr>sv_resources := Some [?r]\<rparr>), web_east)"
    unfolding SetCluster_def demo_resolve prod.case sum.case upd rebuilt by (rule refl)
  with stored sm s0(4) show ?thesis
    by (intro exI [of _ "(swapHandler (Serving g) (Some 0) (s0\<lparr>sv_next := 1\<rparr>))\<lparr>sv_resources := Some [?r]\<rparr>"] exI [of _ g]
        exI [of _ ?gv] exI [of _ "prefix_of ?gv"] exI [of _ sm] exI [of _ ?name] exI [of _ st])
      (simp add: swapHandler_def ServeHTTP_def Let_def split: option.split)
qed

lemma with_east_set:
  "\<exists>s. SetCluster demo_libs apps_v1 (server_New demo_options) ''east'' (mem_client ''east'') demo_discovery any_resource
     web_east = ((None, s), web_east)"
  using east_served by blast

lemma with_east_members: "sv_members with_east = [(''east'', east_member)]" "sv_resources with_east \<noteq> Some []"
  using east_served by (auto simp: with_east_def)

lemma with_east_serves:
  "\<exists>g gv prefix storages name st. ServeHTTP with_east = Serving g \<and> (gv, prefix, storages) \<in> set (gs_rest g) \<and>
     (name, st) \<in> set storages"
  using east_served unfolding with_east_def by (elim exE conjE) (metis fst_conv snd_conv)

lemma without_east:
  "\<exists>s. RemoveCluster demo_libs with_east ''east'' = (None, s) \<and> ServeHTTP s = NotFoundHandler"
  using with_east_members
  by (simp add: RemoveCluster_def rebuild_def Union_def sort_Slice_def sort_clusters_def swapHandler_def ServeHTTP_def Let_def
      split: option.split)

theorem server_serves_union_witness:
  "\<exists>s. SetCluster demo_libs apps_v1 (server_New demo_options) ''east'' (mem_client ''east'') demo_discovery any_resource
     web_east = ((None, s), web_east) \<and> consistent (member_offers s)"
proof -
  obtain s where s: "SetCluster demo_libs apps_v1 (server_New demo_options) ''east'' (mem_client ''east'')
      demo_discovery any_resource web_east = ((None, s), web_east)" using with_east_set by blast
  with server_serves_union [OF rtranclp.rtrancl_refl disjI1 [OF s]] show ?thesis by blast
qed

text \<open>
  A resync in which every cluster's discovery fails changes nothing: the server keeps serving the
  last known set.
\<close>

theorem resync_keeps_last_known:
  assumes "\<forall>(name, m) \<in> set (sv_members s). \<forall>w. isl (fst (mc_discovery m w))"
  shows "fst (resync lib parse s w) = s"
proof -
  have "fst (resolve_members parse ms w) = (False, ms)"
    if "\<forall>(name, m) \<in> set ms. \<forall>w. isl (fst (mc_discovery m w))" for ms w
    using that
  proof (induction ms arbitrary: w)
    case (Cons t ms)
    obtain name m where t: "t = (name, m)" by fastforce
    obtain e w1 where "mc_discovery m w = (Inl e, w1)" using Cons.prems t by (cases "mc_discovery m w") (auto simp: isl_def; metis fst_conv)
    moreover have "fst (resolve_members parse ms w1) = (False, ms)" using Cons by simp
    ultimately show ?case using t by (cases "resolve_members parse ms w1") (simp add: member_resolve_def)
  qed simp
  from this [OF assms, of w] obtain w1 where "resolve_members parse (sv_members s) w = ((False, sv_members s), w1)"
    by (metis prod.collapse)
  then show ?thesis by (simp add: resync_def Let_def)
qed

theorem resync_keeps_last_known_witness:
  "fst (resync demo_libs apps_v1 ((server_New demo_options)\<lparr>sv_members := [(''east'', east_member\<lparr>mc_discovery := \<lambda>w. (Inl unreachable, w)\<rparr>)]\<rparr>)
     web_east) =
   ((server_New demo_options)\<lparr>sv_members := [(''east'', east_member\<lparr>mc_discovery := \<lambda>w. (Inl unreachable, w)\<rparr>)]\<rparr> :: (mem, nat, unit) server)"
  by (rule resync_keeps_last_known) simp

text \<open>
  Registering a cluster again with a new client (new credentials, say) whose resources are the same
  does not reach the handler: the registration succeeds, the member has the new client, but the
  handler, with storages over the old client, stays.
\<close>

theorem set_cluster_keeps_old_client:
  assumes "Union (lib_gvrString lib) (map (\<lambda>(n, m). (n, mc_resources m)) (sv_members s)) = Inr u"
    and "sv_resources s = Some u" and "map_of (sv_members s) name = Some m"
    and "disc w = (Inr lists', w')" and "FromDiscovery parse lists' = Inr found"
    and "Filter found selectors = mc_resources m"
  shows "\<exists>s'. SetCluster lib parse s name client disc selectors w = ((None, s'), w') \<and> ServeHTTP s' = ServeHTTP s \<and>
    map_of (sv_members s') name = Some \<lparr>mc_client = client, mc_discovery = disc, mc_selectors = selectors,
      mc_resources = mc_resources m\<rparr>"
proof -
  let ?m = "\<lparr>mc_client = client, mc_discovery = disc, mc_selectors = selectors, mc_resources = mc_resources m\<rparr>"
  let ?s = "s\<lparr>sv_members := AList.update name ?m (sv_members s)\<rparr>"
  have "map (\<lambda>(n, m). (n, mc_resources m)) (AList.update name ?m (sv_members s)) =
      map (\<lambda>(n, m). (n, mc_resources m)) (sv_members s)"
    using assms(3) by (intro map_update_same [of _ _ m]) simp_all
  with assms(1,2) have "rebuild lib ?s = (None, ?s)" by (simp add: rebuild_def Let_def)
  moreover obtain c where "member_resolve parse \<lparr>mc_client = client, mc_discovery = disc, mc_selectors = selectors,
      mc_resources = []\<rparr> w = ((Inr c, ?m), w')"
    using assms(4-6) by (cases "mc_resources m") (auto simp: member_resolve_def Let_def)
  ultimately have "SetCluster lib parse s name client disc selectors w = ((None, ?s), w')"
    by (simp add: SetCluster_def)
  then show ?thesis by (simp add: ServeHTTP_def update_conv')
qed

definition serving_east :: "(mem, nat, unit) server" where
  "serving_east = (server_New demo_options)\<lparr>sv_members := [(''east'', east_member)],
     sv_resources := Some [(demo_served ''deployment'' False)\<lparr>sr_Clusters := [''east'']\<rparr>]\<rparr>"

theorem set_cluster_keeps_old_client_witness:
  "\<exists>s'. SetCluster demo_libs apps_v1 serving_east ''east'' down_client demo_discovery any_resource web_east =
     ((None, s'), web_east) \<and> ServeHTTP s' = ServeHTTP serving_east"
proof -
  have "Union (lib_gvrString demo_libs) (map (\<lambda>(n, m). (n, mc_resources m)) (sv_members serving_east)) =
      Inr [(demo_served ''deployment'' False)\<lparr>sr_Clusters := [''east'']\<rparr>]"
    by (simp add: serving_east_def east_member_def demo_libs_def demo_union)
  moreover have "sv_resources serving_east = Some [(demo_served ''deployment'' False)\<lparr>sr_Clusters := [''east'']\<rparr>]"
    and "map_of (sv_members serving_east) ''east'' = Some east_member" by (simp_all add: serving_east_def)
  moreover have "Filter [demo_served ''deployment'' False] any_resource = mc_resources east_member"
    by (simp add: demo_filter east_member_def)
  ultimately show ?thesis
    using set_cluster_keeps_old_client [where disc = demo_discovery and w = web_east and w' = web_east, OF _ _ _ demo_discovery_def demo_found]
    by blast
qed


definition deploy_discovery :: "'w discovery_client" where
  "deploy_discovery w = (Inr [\<lparr>rl_GroupVersion = ''apps/v1'', rl_APIResources =
     [(demo_resource ''deployments'')\<lparr>ar_Kind := ''Deploy''\<rparr>]\<rparr>], w)"

definition only_east :: "(mem, nat, unit) server" where
  "only_east = (server_New demo_options)\<lparr>sv_members := [(''east'', east_member)]\<rparr>"

definition west_member :: "(mem, nat) memberCluster" where
  "west_member = \<lparr>mc_client = mem_client ''west'', mc_discovery = deploy_discovery, mc_selectors = any_resource,
     mc_resources = [(demo_served ''deployment'' False)\<lparr>sr_Kind := WithKind \<lparr>gv_group = ''apps'', gv_version = ''v1''\<rparr> ''Deploy''\<rparr>]\<rparr>"

lemma deploy_resolve:
  "member_resolve apps_v1 \<lparr>mc_client = mem_client ''west'', mc_discovery = deploy_discovery, mc_selectors = any_resource,
     mc_resources = []\<rparr> w = ((Inr True, west_member), w)"
proof -
  have "CutSuffix ''deployments'' ''/status'' = (''deployments'', False)" by (simp add: CutSuffix_def HasSuffix_def)
  then show ?thesis
    by (simp add: member_resolve_def deploy_discovery_def west_member_def apps_v1_def demo_resource_def discovered_def demo_served_def Contains_def)
qed


end
