(* ===== verification/Catalog.thy ===== *)
theory Catalog
  imports Server
begin

text \<open>
  What the server promises, without its members, handlers and contexts: a catalog of what each
  cluster offers and the set that is served. The server refines it.
\<close>

section \<open>Specification\<close>

record catalog =
  ct_offers :: "string \<rightharpoonup> ServedResource list"
  ct_served :: "ServedResource list"

definition empty_catalog :: catalog where
  "empty_catalog = \<lparr>ct_offers = Map.empty, ct_served = []\<rparr>"

text \<open>A set is the union of a catalog: the clusters agree, and it is the merge of what they offer.\<close>

definition is_union ::
  "(group_version_resource \<Rightarrow> string) \<Rightarrow> (string \<rightharpoonup> ServedResource list) \<Rightarrow> ServedResource list \<Rightarrow> bool" where
  "is_union gvrString offered served \<longleftrightarrow>
     (\<exists>ms. wf_map ms \<and> map_of ms = offered \<and> consistent (offers ms) \<and> served = union_spec gvrString (offers ms))"

text \<open>
  One cluster is put or dropped, or the offers of the registered clusters change; the served set
  stays or becomes the union of the new catalog, so a catalog on which clusters disagree is never
  served.
\<close>

inductive catalog_step :: "(group_version_resource \<Rightarrow> string) \<Rightarrow> catalog \<Rightarrow> catalog \<Rightarrow> bool"
  for gvrString where
  put: "served = ct_served c \<or> is_union gvrString ((ct_offers c)(name \<mapsto> rs)) served \<Longrightarrow>
    catalog_step gvrString c \<lparr>ct_offers = (ct_offers c)(name \<mapsto> rs), ct_served = served\<rparr>"
| drop: "served = ct_served c \<or> is_union gvrString ((ct_offers c)(name := None)) served \<Longrightarrow>
    catalog_step gvrString c \<lparr>ct_offers = (ct_offers c)(name := None), ct_served = served\<rparr>"
| refresh: "dom offered = dom (ct_offers c) \<Longrightarrow> served = ct_served c \<or> is_union gvrString offered served \<Longrightarrow>
    catalog_step gvrString c \<lparr>ct_offers = offered, ct_served = served\<rparr>"

definition catalog_of :: "('w, 'h, 'd) server \<Rightarrow> catalog" where
  "catalog_of s =
     \<lparr>ct_offers = map_option mc_resources \<circ> map_of (sv_members s),
      ct_served = (case sv_resources s of None \<Rightarrow> [] | Some rs \<Rightarrow> rs)\<rparr>"

section \<open>Lemmas\<close>

lemma catalog_of_new: "catalog_of (server_New opts) = empty_catalog"
  by (simp add: catalog_of_def server_New_def empty_catalog_def fun_eq_iff)

lemma catalog_step_refl: "catalog_step gvrString c c"
  using catalog_step.refresh [of "ct_offers c" c "ct_served c" gvrString] by (cases c) simp

lemma map_of_resources:
  "map_of (map (\<lambda>(name, m). (name, mc_resources m)) ms) = map_option mc_resources \<circ> map_of ms"
  by (induction ms) (auto simp: fun_eq_iff)

text \<open>What a rebuild leaves of the catalog.\<close>

lemma rebuild_catalog:
  assumes "server_ok s"
  shows "\<exists>served. catalog_of (snd (rebuild lib s)) =
      \<lparr>ct_offers = map_option mc_resources \<circ> map_of (sv_members s), ct_served = served\<rparr> \<and>
    (served = ct_served (catalog_of s) \<or>
     is_union (lib_gvrString lib) (map_option mc_resources \<circ> map_of (sv_members s)) served)"
proof -
  let ?bc = "map (\<lambda>(name, m). (name, mc_resources m)) (sv_members s)"
  let ?s' = "snd (rebuild lib s)"
  have members: "ct_offers (catalog_of ?s') = map_option mc_resources \<circ> map_of (sv_members s)"
    by (simp add: catalog_of_def)
  have "ct_served (catalog_of ?s') = ct_served (catalog_of s) \<or>
      (\<exists>u. Union (lib_gvrString lib) ?bc = Inr u \<and> ct_served (catalog_of ?s') = u)"
    by (auto simp: rebuild_def catalog_of_def Let_def split: sum.splits option.splits)
  moreover have "is_union (lib_gvrString lib) (map_option mc_resources \<circ> map_of (sv_members s)) u"
    if u: "Union (lib_gvrString lib) ?bc = Inr u" for u
  proof -
    have con: "consistent (offers ?bc)" and "u = union_spec (lib_gvrString lib) (offers ?bc)"
      using Union_eq [of ?bc "lib_gvrString lib"] u by (auto simp: isl_def split: if_splits)
    moreover have "wf_map ?bc" using assms by (simp add: server_ok_def comp_def case_prod_beta)
    ultimately show ?thesis unfolding is_union_def map_of_resources [symmetric] by blast
  qed
  ultimately show ?thesis using members by (cases "catalog_of ?s'") auto
qed

lemma catalog_step_SetCluster:
  assumes "server_ok s" and "SetCluster lib parse s name client disc selectors w = ((err, s'), w')"
  shows "catalog_step (lib_gvrString lib) (catalog_of s) (catalog_of s')"
proof -
  obtain res m w1 where r: "member_resolve parse \<lparr>mc_client = client, mc_discovery = disc, mc_selectors = selectors,
      mc_resources = []\<rparr> w = ((res, m), w1)" by (metis surj_pair)
  show ?thesis
  proof (cases res)
    case (Inl e)
    with assms(2) r have "s' = s" by (simp add: SetCluster_def)
    then show ?thesis by (simp add: catalog_step_refl)
  next
    case (Inr changed)
    let ?s = "s\<lparr>sv_members := AList.update name m (sv_members s)\<rparr>"
    have s': "s' = snd (rebuild lib ?s)" using assms(2) r Inr by (simp add: SetCluster_def)
    have "server_ok ?s" using assms(1) by (simp add: server_ok_def distinct_update)
    moreover have "map_option mc_resources \<circ> map_of (sv_members ?s) = (ct_offers (catalog_of s))(name \<mapsto> mc_resources m)"
      by (simp add: catalog_of_def update_conv' fun_eq_iff)
    moreover have "ct_served (catalog_of ?s) = ct_served (catalog_of s)" by (simp add: catalog_of_def)
    ultimately show ?thesis using rebuild_catalog [of ?s lib] unfolding s' by (metis catalog_step.put)
  qed
qed

lemma catalog_step_RemoveCluster:
  assumes "server_ok s"
  shows "catalog_step (lib_gvrString lib) (catalog_of s) (catalog_of (snd (RemoveCluster lib s name)))"
proof -
  let ?s = "s\<lparr>sv_members := AList.delete name (sv_members s)\<rparr>"
  have "server_ok ?s" using assms by (simp add: server_ok_def distinct_delete)
  moreover have "map_option mc_resources \<circ> map_of (sv_members ?s) = (ct_offers (catalog_of s))(name := None)"
    by (simp add: catalog_of_def delete_conv' fun_eq_iff)
  moreover have "ct_served (catalog_of ?s) = ct_served (catalog_of s)" by (simp add: catalog_of_def)
  ultimately show ?thesis using rebuild_catalog [of ?s lib] unfolding RemoveCluster_def by (metis catalog_step.drop)
qed

lemma catalog_step_resync:
  assumes "server_ok s"
  shows "catalog_step (lib_gvrString lib) (catalog_of s) (catalog_of (fst (resync lib parse s w)))"
proof -
  obtain changed ms w1 where r: "resolve_members parse (sv_members s) w = ((changed, ms), w1)" by (metis surj_pair)
  let ?s = "s\<lparr>sv_members := ms\<rparr>"
  note keys = resolve_members_keys [OF r]
  have ok: "server_ok ?s" using assms keys by (simp add: server_ok_def)
  have served: "ct_served (catalog_of ?s) = ct_served (catalog_of s)" by (simp add: catalog_of_def)
  have "dom (map_of ms) = dom (map_of (sv_members s))" unfolding dom_map_of_conv_image_fst keys [folded set_map]
    using keys by (metis list.set_map)
  then have dom: "dom (map_option mc_resources \<circ> map_of (sv_members ?s)) = dom (ct_offers (catalog_of s))"
    by (simp add: catalog_of_def dom_map_option_comp)
  show ?thesis
  proof (cases changed)
    case True
    with r have "fst (resync lib parse s w) = snd (rebuild lib ?s)" by (simp add: resync_def Let_def)
    with rebuild_catalog [OF ok, of lib] served dom show ?thesis by (metis catalog_step.refresh)
  next
    case False
    with r have "catalog_of (fst (resync lib parse s w)) =
        \<lparr>ct_offers = map_option mc_resources \<circ> map_of (sv_members ?s), ct_served = ct_served (catalog_of s)\<rparr>"
      by (simp add: resync_def catalog_of_def)
    with dom show ?thesis by (metis catalog_step.refresh)
  qed
qed

interpretation catalog: simulation "\<lambda>s. s = server_New opts" "server_step lib parse" server_ok catalog_of
  "catalog_step (lib_gvrString lib)" for opts lib parse
proof unfold_locales
  show "catalog_step (lib_gvrString lib) (catalog_of s) (catalog_of t)" if "server_ok s" and "server_step lib parse s t" for s t
    using that(2)
  proof cases
    case (step_set name client disc selectors w err w')
    with that(1) show ?thesis by (blast intro: catalog_step_SetCluster)
  next
    case (step_remove name err)
    with catalog_step_RemoveCluster [OF that(1), of lib name] show ?thesis by simp
  next
    case (step_resync w w')
    with catalog_step_resync [OF that(1), of lib parse w] show ?thesis by simp
  qed
qed

section \<open>Properties\<close>



end
