(* ===== verification/Aggregator.thy ===== *)
theory Aggregator
  imports Server
begin

text \<open>
  \<open>pkg/controllers/api-aggregator\<close>: the controller that keeps the server's member clusters equal to
  those of its AggregatedAPI object, reports the outcome in the object's status and publishes a
  kubeconfig for the endpoint. The server is shared state and is passed through every definition that
  uses it; the host cluster is reached through the client of the controller's options.
\<close>

section \<open>Definitions\<close>

text \<open>\<open>apis/v1alpha1/groupversion.go\<close>\<close>

definition API_GroupVersion :: group_version where
  "API_GroupVersion = \<lparr>gv_group = ''aggregation.ntnn.dev'', gv_version = ''v1alpha1''\<rparr>"

record OwnerReference =
  or_APIVersion :: string
  or_Kind :: string
  or_Name :: string
  or_UID :: string
  or_Controller :: bool

record Secret =
  sec_APIVersion :: string
  sec_Kind :: string
  sec_Name :: string
  sec_Namespace :: string
  sec_OwnerReferences :: "OwnerReference list"
  sec_Data :: "string \<rightharpoonup> string"

text \<open>\<open>clientcmdapi.Config\<close>, the fields that are written.\<close>

record kubeconfig_cluster =
  kcl_Server :: string
  kcl_InsecureSkipTLSVerify :: bool

record kubeconfig_context =
  kcx_Cluster :: string
  kcx_AuthInfo :: string

record kubeconfig =
  kc_Clusters :: "(string \<times> kubeconfig_cluster) list"
  kc_AuthInfos :: "(string \<times> string) list"
  kc_Contexts :: "(string \<times> kubeconfig_context) list"
  kc_CurrentContext :: string

text \<open>
  \<open>client.Client\<close>, the calls the controller makes: reading the object and Secrets (namespace, name),
  server-side apply of a Secret (field owner, whether ownership is forced), and a merge patch of the
  status subresource (new object, the object it is diffed against).
\<close>

record 'w host_client =
  hc_GetAggregatedAPI :: "string \<Rightarrow> string \<Rightarrow> ('w, AggregatedAPI) io"
  hc_GetSecret :: "string \<Rightarrow> string \<Rightarrow> ('w, Secret) io"
  hc_ApplySecret :: "Secret \<Rightarrow> string \<Rightarrow> bool \<Rightarrow> ('w, unit) io"
  hc_PatchStatus :: "AggregatedAPI \<Rightarrow> AggregatedAPI \<Rightarrow> ('w, unit) io"

text \<open>
  What the controller calls of the Kubernetes libraries; \<open>'c\<close> is \<open>rest.Config\<close>. \<open>k8s_statusText\<close> is the
  message of an API status.
\<close>

record ('w, 'h, 'c) k8s_libs =
  k8s_RESTConfigFromKubeConfig :: "string \<Rightarrow> 'c result"
  k8s_Write :: "kubeconfig \<Rightarrow> string result"
  k8s_NewControllerRef :: "AggregatedAPI \<Rightarrow> group_version_kind \<Rightarrow> OwnerReference"
  k8s_SetStatusCondition :: "Condition list \<Rightarrow> Condition \<Rightarrow> Condition list"
  k8s_NewDiscoveryClientForConfig :: "'c \<Rightarrow> 'w discovery_client result"
  k8s_NewDynamicForConfig :: "'c \<Rightarrow> ('w, 'h) dynamic_client result"
  k8s_statusText :: "api_status \<Rightarrow> string"

definition ControllerName :: string where
  "ControllerName = ''aggregatedapi''"

text \<open>
  \<open>Options\<close>. \<open>None\<close> is nil. The server the pointer leads to is passed as state, so of the pointer only
  whether it is nil is left.
\<close>

record ('w, 'h, 'c) aggregator_options =
  ao_AggregatedAPI :: string
  ao_Namespace :: string
  ao_Client :: "'w host_client option"
  ao_Server :: "unit option"
  ao_URL :: string
  ao_DiscoveryClient :: "('c \<Rightarrow> 'w discovery_client result) option"
  ao_DynamicClient :: "('c \<Rightarrow> ('w, 'h) dynamic_client result) option"

definition aggregator_defaults :: "('w, 'h, 'c) aggregator_options \<Rightarrow> ('w, 'h, 'c) aggregator_options" where
  "aggregator_defaults o' = (if ao_Namespace o' = '''' then o'\<lparr>ao_Namespace := ''default''\<rparr> else o')"

text \<open>\<open>Controller\<close>: the options once validated, when none of the fields is nil any more.\<close>

record ('w, 'h, 'c) Controller =
  co_AggregatedAPI :: string
  co_Namespace :: string
  co_Client :: "'w host_client"
  co_URL :: string
  co_DiscoveryClient :: "'c \<Rightarrow> 'w discovery_client result"
  co_DynamicClient :: "'c \<Rightarrow> ('w, 'h) dynamic_client result"

definition aggregator_validate ::
  "('w, 'h, 'c) k8s_libs \<Rightarrow> ('w, 'h, 'c) aggregator_options \<Rightarrow> ('w, 'h, 'c) Controller result" where
  "aggregator_validate K opts =
     (let opts = aggregator_defaults opts
      in if ao_AggregatedAPI opts = '''' then Inl (New ''an AggregatedAPI name is required'')
         else case ao_Client opts of
           None \<Rightarrow> Inl (New ''a Client is required'')
         | Some client \<Rightarrow>
             if ao_Server opts = None then Inl (New ''a Server is required'')
             else Inr \<lparr>co_AggregatedAPI = ao_AggregatedAPI opts, co_Namespace = ao_Namespace opts, co_Client = client,
                    co_URL = ao_URL opts,
                    co_DiscoveryClient = (case ao_DiscoveryClient opts of
                        None \<Rightarrow> k8s_NewDiscoveryClientForConfig K | Some f \<Rightarrow> f),
                    co_DynamicClient = (case ao_DynamicClient opts of
                        None \<Rightarrow> k8s_NewDynamicForConfig K | Some f \<Rightarrow> f)\<rparr>)"

definition NewController ::
  "('w, 'h, 'c) k8s_libs \<Rightarrow> ('w, 'h, 'c) aggregator_options \<Rightarrow> ('w, 'h, 'c) Controller result" where
  "NewController K opts =
     (case aggregator_validate K opts of
        Inl err \<Rightarrow> Inl (Wrapf ''invalid aggregatedapi controller options: %w'' [] err)
      | Inr c \<Rightarrow> Inr c)"

text \<open>The map function of \<open>SetupWithManager\<close>: whatever Secret changed, the one object is reconciled.\<close>

definition secret_requests :: "('w, 'h, 'c) Controller \<Rightarrow> Secret \<Rightarrow> (string \<times> string) list" where
  "secret_requests c obj = [(co_Namespace c, co_AggregatedAPI c)]"

text \<open>
  \<open>SetupWithManager\<close>: what the controller builder of the manager is told, and the requests an event in
  the host cluster leads to: an object (\<open>For\<close>) is reconciled itself, a Secret (\<open>Watches\<close>) is mapped.
\<close>

datatype watch_source = For_AggregatedAPI | Watches_Secret

definition aggregator_SetupWithManager :: "string \<times> watch_source list" where
  "aggregator_SetupWithManager = (ControllerName, [For_AggregatedAPI, Watches_Secret])"

datatype host_event = AggregatedAPI_event AggregatedAPI | Secret_event Secret

definition event_requests :: "('w, 'h, 'c) Controller \<Rightarrow> host_event \<Rightarrow> (string \<times> string) list" where
  "event_requests c ev =
     (case ev of
        AggregatedAPI_event aa \<Rightarrow>
          if For_AggregatedAPI \<in> set (snd aggregator_SetupWithManager) then [(aa_namespace aa, aa_name aa)] else []
      | Secret_event secret \<Rightarrow>
          if Watches_Secret \<in> set (snd aggregator_SetupWithManager) then secret_requests c secret else [])"

definition restConfigFromSecret :: "('w, 'h, 'c) k8s_libs \<Rightarrow> Secret \<Rightarrow> 'c result" where
  "restConfigFromSecret K secret =
     (case sec_Data secret ''kubeconfig'' of
        None \<Rightarrow> Inl (New ''missing \"kubeconfig\" key'')
      | Some raw \<Rightarrow>
          (case k8s_RESTConfigFromKubeConfig K raw of
             Inl err \<Rightarrow> Inl (Wrapf ''parsing kubeconfig: %w'' [] err)
           | Inr config \<Rightarrow> Inr config))"

text \<open>\<open>errors.Join\<close>: nil when every error is nil.\<close>

definition errors_Join :: "go_error option list \<Rightarrow> go_error option" where
  "errors_Join errs = (let es = [e. Some e \<leftarrow> errs] in if es = [] then None else Some (Join es))"

definition registerCluster ::
  "('w, 'h, 'd) server_libs \<Rightarrow> group_parser \<Rightarrow> ('w, 'h, 'c) k8s_libs \<Rightarrow> ('w, 'h, 'c) Controller \<Rightarrow> string
     \<Rightarrow> AggregatedCluster \<Rightarrow> ('w, 'h, 'd) server \<Rightarrow> 'w \<Rightarrow> (go_error option \<times> ('w, 'h, 'd) server) \<times> 'w" where
  "registerCluster lib parse K c name cluster s w =
     (case hc_GetSecret (co_Client c) (co_Namespace c) name w of
        (Inl err, w') \<Rightarrow> ((Some (Wrapf ''getting kubeconfig Secret: %w'' [] err), s), w')
      | (Inr secret, w') \<Rightarrow>
          (case restConfigFromSecret K secret of
             Inl err \<Rightarrow> ((Some (Wrapf ''loading kubeconfig: %w'' [] err), s), w')
           | Inr config \<Rightarrow>
               (case co_DynamicClient c config of
                  Inl err \<Rightarrow> ((Some (Wrapf ''building dynamic client: %w'' [] err), s), w')
                | Inr dynamicClient \<Rightarrow>
                    (case co_DiscoveryClient c config of
                       Inl err \<Rightarrow> ((Some (Wrapf ''building discovery client: %w'' [] err), s), w')
                     | Inr discoveryClient \<Rightarrow>
                         (case SetCluster lib parse s name dynamicClient discoveryClient (ac_APIs cluster) w' of
                            ((Some err, s'), w'') \<Rightarrow> ((Some (Wrapf ''registering on the server: %w'' [] err), s'), w'')
                          | ((None, s'), w'') \<Rightarrow> ((None, s'), w''))))))"

abbreviation cluster_name :: "AggregatedCluster \<Rightarrow> string" where
  "cluster_name cluster \<equiv> ca_KubeconfigName (ac_Access cluster)"

text \<open>The two loops of \<open>run\<close>; each returns the failures in order.\<close>

fun register_clusters ::
  "('w, 'h, 'd) server_libs \<Rightarrow> group_parser \<Rightarrow> ('w, 'h, 'c) k8s_libs \<Rightarrow> ('w, 'h, 'c) Controller
     \<Rightarrow> AggregatedCluster list \<Rightarrow> ('w, 'h, 'd) server \<Rightarrow> 'w \<Rightarrow> (go_error list \<times> ('w, 'h, 'd) server) \<times> 'w" where
  "register_clusters lib parse K c [] s w = (([], s), w)"
| "register_clusters lib parse K c (cluster # cs) s w =
     (case registerCluster lib parse K c (cluster_name cluster) cluster s w of ((err, s1), w1) \<Rightarrow>
       (case register_clusters lib parse K c cs s1 w1 of ((failures, s2), w2) \<Rightarrow>
         (((case err of None \<Rightarrow> failures
            | Some e \<Rightarrow> Wrapf ''cluster %q: %w'' [cluster_name cluster] e # failures), s2), w2)))"

fun remove_clusters ::
  "('w, 'h, 'd) server_libs \<Rightarrow> string list \<Rightarrow> string list \<Rightarrow> ('w, 'h, 'd) server \<Rightarrow> go_error list \<times> ('w, 'h, 'd) server" where
  "remove_clusters lib specClusters [] s = ([], s)"
| "remove_clusters lib specClusters (name # names) s =
     (if name \<in> set specClusters then remove_clusters lib specClusters names s
      else (case RemoveCluster lib s name of (err, s1) \<Rightarrow>
        (case remove_clusters lib specClusters names s1 of (failures, s2) \<Rightarrow>
          ((case err of None \<Rightarrow> failures | Some e \<Rightarrow> Wrapf ''removing cluster %q: %w'' [name] e # failures), s2))))"

definition setConditionReady ::
  "('w, 'h, 'c) k8s_libs \<Rightarrow> bool \<Rightarrow> string \<Rightarrow> string \<Rightarrow> AggregatedAPI \<Rightarrow> AggregatedAPI" where
  "setConditionReady K status reason message aa =
     aa\<lparr>aa_Status := (aa_Status aa)\<lparr>sts_Conditions :=
        k8s_SetStatusCondition K (sts_Conditions (aa_Status aa))
          \<lparr>cond_Type = AggregatedAPIConditionReady, cond_Status = (if \<not> status then ''False'' else ''True''),
           cond_ObservedGeneration = aa_generation aa, cond_Reason = reason, cond_Message = message\<rparr>\<rparr>\<rparr>"

definition kubeconfigSecretName :: "string \<Rightarrow> string" where
  "kubeconfigSecretName aggregatedAPI = aggregatedAPI @ ''-kubeconfig''"

definition endpoint_kubeconfig :: "string \<Rightarrow> kubeconfig" where
  "endpoint_kubeconfig url =
     \<lparr>kc_Clusters = [(''aggregated'', \<lparr>kcl_Server = url, kcl_InsecureSkipTLSVerify = True\<rparr>)],
      kc_AuthInfos = [(''aggregated'', ''unused'')],
      kc_Contexts = [(''aggregated'', \<lparr>kcx_Cluster = ''aggregated'', kcx_AuthInfo = ''aggregated''\<rparr>)],
      kc_CurrentContext = ''aggregated''\<rparr>"

definition kubeconfigForURL :: "('w, 'h, 'c) k8s_libs \<Rightarrow> string \<Rightarrow> string result" where
  "kubeconfigForURL K url =
     (case k8s_Write K (endpoint_kubeconfig url) of
        Inl err \<Rightarrow> Inl (Wrapf ''encoding kubeconfig: %w'' [] err)
      | Inr raw \<Rightarrow> Inr raw)"

definition reconciler_url :: "('w, 'h, 'c) Controller \<Rightarrow> ('w, 'h, 'd) server \<Rightarrow> string" where
  "reconciler_url c s = (if co_URL c \<noteq> '''' then co_URL c else server_URL s)"

definition kubeconfig_secret ::
  "('w, 'h, 'd) server_libs \<Rightarrow> ('w, 'h, 'c) k8s_libs \<Rightarrow> AggregatedAPI \<Rightarrow> string \<Rightarrow> Secret" where
  "kubeconfig_secret lib K aa raw =
     \<lparr>sec_APIVersion = lib_gvString lib \<lparr>gv_group = '''', gv_version = ''v1''\<rparr>, sec_Kind = ''Secret'',
      sec_Name = kubeconfigSecretName (aa_name aa), sec_Namespace = aa_namespace aa,
      sec_OwnerReferences = [k8s_NewControllerRef K aa (WithKind API_GroupVersion ''AggregatedAPI'')],
      sec_Data = [''kubeconfig'' \<mapsto> raw]\<rparr>"

definition applyKubeconfigSecret ::
  "('w, 'h, 'd) server_libs \<Rightarrow> ('w, 'h, 'c) k8s_libs \<Rightarrow> ('w, 'h, 'c) Controller \<Rightarrow> ('w, 'h, 'd) server \<Rightarrow> AggregatedAPI
     \<Rightarrow> 'w \<Rightarrow> (go_error option \<times> AggregatedAPI) \<times> 'w" where
  "applyKubeconfigSecret lib K c s aa w =
     (case kubeconfigForURL K (reconciler_url c s) of
        Inl err \<Rightarrow> ((Some err, aa), w)
      | Inr raw \<Rightarrow>
          (case hc_ApplySecret (co_Client c) (kubeconfig_secret lib K aa raw) ControllerName True w of
             (Inl err, w') \<Rightarrow> ((Some (Wrapf ''applying Secret: %w'' [] err), aa), w')
           | (Inr _, w') \<Rightarrow>
               ((None, aa\<lparr>aa_Status := (aa_Status aa)\<lparr>sts_KubeconfigSecret := kubeconfigSecretName (aa_name aa)\<rparr>\<rparr>), w')))"

text \<open>\<open>run\<close>: the error, the object with its new status, the server.\<close>

definition aggregator_run ::
  "('w, 'h, 'd) server_libs \<Rightarrow> group_parser \<Rightarrow> ('w, 'h, 'c) k8s_libs \<Rightarrow> ('w, 'h, 'c) Controller \<Rightarrow> AggregatedAPI
     \<Rightarrow> ('w, 'h, 'd) server \<Rightarrow> 'w \<Rightarrow> (go_error option \<times> AggregatedAPI \<times> ('w, 'h, 'd) server) \<times> 'w" where
  "aggregator_run lib parse K c aa s w =
     (case register_clusters lib parse K c (sp_Clusters (aa_Spec aa)) s w of ((failures, s1), w1) \<Rightarrow>
       (case remove_clusters lib (map cluster_name (sp_Clusters (aa_Spec aa))) (server_Clusters s1) s1 of (failures', s2) \<Rightarrow>
         (let err = errors_Join (map Some (failures @ failures'));
              aa1 = (case err of
                  Some e \<Rightarrow> setConditionReady K False ''ClusterRegistrationFailed'' (error_text (k8s_statusText K) e) aa
                | None \<Rightarrow> setConditionReady K True ''ClustersRegistered'' ''all clusters registered'' aa);
              aa2 = aa1\<lparr>aa_Status := (aa_Status aa1)\<lparr>sts_URL := reconciler_url c s2\<rparr>\<rparr>
          in case applyKubeconfigSecret lib K c s2 aa2 w1 of ((secretErr, aa3), w2) \<Rightarrow>
               (((case secretErr of None \<Rightarrow> err
                  | Some e \<Rightarrow> errors_Join [err, Some (Wrapf ''applying kubeconfig Secret: %w'' [] e)]), aa3, s2), w2))))"

definition commitStatus ::
  "('w, 'h, 'c) Controller \<Rightarrow> AggregatedAPI \<Rightarrow> AggregatedAPI \<Rightarrow> 'w \<Rightarrow> go_error option \<times> 'w" where
  "commitStatus c old aa w =
     (if aa_Status old = aa_Status aa then (None, w)
      else (case hc_PatchStatus (co_Client c) aa old w of
        (Inl err, w') \<Rightarrow> (Some (Wrapf ''patching status: %w'' [] err), w')
      | (Inr _, w') \<Rightarrow> (None, w')))"

text \<open>\<open>fetchAggregatedAPI\<close>: \<open>None\<close> when there is nothing to continue with.\<close>

definition fetchAggregatedAPI :: "('w, 'h, 'c) Controller \<Rightarrow> ('w, AggregatedAPI option) io" where
  "fetchAggregatedAPI c w =
     (case hc_GetAggregatedAPI (co_Client c) (co_Namespace c) (co_AggregatedAPI c) w of
        (Inl err, w') \<Rightarrow>
          (if IsNotFound err then (Inr None, w') else (Inl (Wrapf ''getting AggregatedAPI: %w'' [] err), w'))
      | (Inr aa, w') \<Rightarrow> (Inr (Some aa), w'))"

definition aggregator_reconcile ::
  "('w, 'h, 'd) server_libs \<Rightarrow> group_parser \<Rightarrow> ('w, 'h, 'c) k8s_libs \<Rightarrow> ('w, 'h, 'c) Controller
     \<Rightarrow> ('w, 'h, 'd) server \<Rightarrow> 'w \<Rightarrow> (go_error option \<times> ('w, 'h, 'd) server) \<times> 'w" where
  "aggregator_reconcile lib parse K c s w =
     (case fetchAggregatedAPI c w of
        (Inl err, w') \<Rightarrow> ((Some err, s), w')
      | (Inr None, w') \<Rightarrow> ((None, s), w')
      | (Inr (Some old), w') \<Rightarrow>
          (case aggregator_run lib parse K c old s w' of ((err, aa, s'), w1) \<Rightarrow>
            (case commitStatus c old aa w1 of (commitErr, w2) \<Rightarrow> ((errors_Join [err, commitErr], s'), w2))))"

text \<open>A request is a pair of namespace and name.\<close>

definition Reconcile ::
  "('w, 'h, 'd) server_libs \<Rightarrow> group_parser \<Rightarrow> ('w, 'h, 'c) k8s_libs \<Rightarrow> ('w, 'h, 'c) Controller \<Rightarrow> string \<times> string
     \<Rightarrow> ('w, 'h, 'd) server \<Rightarrow> 'w \<Rightarrow> (go_error option \<times> ('w, 'h, 'd) server) \<times> 'w" where
  "Reconcile lib parse K c req s w =
     (if snd req \<noteq> co_AggregatedAPI c \<or> fst req \<noteq> co_Namespace c then ((None, s), w)
      else aggregator_reconcile lib parse K c s w)"

text \<open>
  \<open>config.Setup\<close>: the manager's client and the server are put into the options. \<open>complete\<close> is what the
  controller builder of the manager answers.
\<close>

definition aggregator_Setup ::
  "('w, 'h, 'c) k8s_libs \<Rightarrow> (('w, 'h, 'c) Controller \<Rightarrow> go_error option) \<Rightarrow> 'w host_client \<Rightarrow> unit option
     \<Rightarrow> ('w, 'h, 'c) aggregator_options \<Rightarrow> ('w, 'h, 'c) Controller result" where
  "aggregator_Setup K complete mgrClient server opts =
     (case NewController K (opts\<lparr>ao_Client := Some mgrClient, ao_Server := server\<rparr>) of
        Inl err \<Rightarrow> Inl (Wrapf ''building aggregatedapi controller: %w'' [] err)
      | Inr controller \<Rightarrow>
          (case complete controller of
             Some err \<Rightarrow> Inl (Wrapf ''setting up aggregatedapi controller: %w'' [] err)
           | None \<Rightarrow> Inr controller))"


section \<open>Specification\<close>

abbreviation spec_names :: "AggregatedAPI \<Rightarrow> string list" where
  "spec_names aa \<equiv> map cluster_name (sp_Clusters (aa_Spec aa))"

text \<open>
  What \<open>meta.SetStatusCondition\<close> documents: the condition of that type becomes the given one, the
  others stay.
\<close>

definition find_condition :: "Condition list \<Rightarrow> string \<Rightarrow> Condition option" where
  "find_condition cs t = find (\<lambda>c. cond_Type c = t) cs"

definition conditions_law :: "(Condition list \<Rightarrow> Condition \<Rightarrow> Condition list) \<Rightarrow> bool" where
  "conditions_law set_condition \<longleftrightarrow>
     (\<forall>cs c. find_condition (set_condition cs c) (cond_Type c) = Some c \<and>
        (\<forall>t. t \<noteq> cond_Type c \<longrightarrow> find_condition (set_condition cs c) t = find_condition cs t))"

definition ready_condition :: "AggregatedAPI \<Rightarrow> Condition option" where
  "ready_condition aa = find_condition (sts_Conditions (aa_Status aa)) AggregatedAPIConditionReady"

section \<open>Lemmas\<close>

lemma errors_Join_None [simp]: "errors_Join errs = None \<longleftrightarrow> (\<forall>e \<in> set errs. e = None)"
  by (auto simp: errors_Join_def Let_def split: option.splits)

subsection \<open>What a pass does to the server\<close>

lemma registerCluster_calls:
  assumes "registerCluster lib parse K c name cluster s w = ((err, s'), w')"
  shows "s' = s \<and> err \<noteq> None \<or>
    (\<exists>a w1 e. set_cluster lib parse s name a w1 = ((e, s'), w') \<and> (err = None \<longleftrightarrow> e = None))"
proof -
  have "s' = s \<and> err \<noteq> None \<or>
    (\<exists>dyn disc sel w1 e. SetCluster lib parse s name dyn disc sel w1 = ((e, s'), w') \<and> (err = None \<longleftrightarrow> e = None))"
    using assms unfolding registerCluster_def by (fastforce split: prod.splits sum.splits option.splits)
  then show ?thesis unfolding set_cluster_def by (metis (no_types, lifting) prod.case)
qed

lemma set_cluster_step:
  assumes "set_cluster lib parse s name a w1 = ((e, s'), w')"
  shows "server_step lib parse s s'"
proof -
  obtain client disc selectors where "a = (client, disc, selectors)" by (cases a)
  with assms show ?thesis by (auto simp: set_cluster_def intro: step_set)
qed

lemma registerCluster_effect:
  assumes "registerCluster lib parse K c name cluster s w = ((err, s'), w')"
  shows "(server_step lib parse)\<^sup>*\<^sup>* s s' \<and> set (server_Clusters s) \<subseteq> set (server_Clusters s') \<and>
    set (server_Clusters s') \<subseteq> insert name (set (server_Clusters s)) \<and>
    (err = None \<longrightarrow> name \<in> set (server_Clusters s') \<and> (server_ok s \<longrightarrow> in_sync lib s'))"
  using registerCluster_calls [OF assms]
proof (elim disjE exE conjE)
  fix a w1 e
  assume call: "set_cluster lib parse s name a w1 = ((e, s'), w')" and err: "(err = None) = (e = None)"
  obtain client disc selectors where "a = (client, disc, selectors)" by (cases a)
  with call have "SetCluster lib parse s name client disc selectors w1 = ((e, s'), w')" by (simp add: set_cluster_def)
  then have "e = None \<and> server_ok s \<longrightarrow> in_sync lib s'" by (auto intro: SetCluster_in_sync)
  with set_cluster_step [OF call] set_cluster_names [OF call] err show ?thesis by auto
qed auto

lemma register_clusters_effect:
  assumes "register_clusters lib parse K c cs s w = ((failures, s'), w')"
  shows "(server_step lib parse)\<^sup>*\<^sup>* s s' \<and> set (server_Clusters s) \<subseteq> set (server_Clusters s') \<and>
    set (server_Clusters s') \<subseteq> set (server_Clusters s) \<union> set (map cluster_name cs) \<and>
    (failures = [] \<longrightarrow> set (map cluster_name cs) \<subseteq> set (server_Clusters s'))"
  using assms
proof (induction cs arbitrary: s w failures)
  case (Cons x cs)
  obtain err s1 w1 where one: "registerCluster lib parse K c (cluster_name x) x s w = ((err, s1), w1)" by (metis surj_pair)
  obtain fs where rest: "register_clusters lib parse K c cs s1 w1 = ((fs, s'), w')"
    and fs: "failures = [] \<longrightarrow> fs = [] \<and> err = None"
    using Cons.prems one by (auto split: prod.splits option.splits)
  note both = registerCluster_effect [OF one] Cons.IH [OF rest]
  then have "(server_step lib parse)\<^sup>*\<^sup>* s s'" by (meson rtranclp_trans)
  moreover have "set (server_Clusters s) \<subseteq> set (server_Clusters s')" using both by blast
  moreover have "set (server_Clusters s') \<subseteq> set (server_Clusters s) \<union> set (map cluster_name (x # cs))" using both by auto
  moreover have "failures = [] \<longrightarrow> set (map cluster_name (x # cs)) \<subseteq> set (server_Clusters s')" using both fs by auto
  ultimately show ?case by blast
qed auto

lemma register_clusters_in_sync:
  assumes "register_clusters lib parse K c cs s w = (([], s'), w')" and "server_ok s" and "cs \<noteq> [] \<or> in_sync lib s"
  shows "in_sync lib s'"
  using assms
proof (induction cs arbitrary: s w)
  case (Cons x cs)
  obtain err s1 w1 where one: "registerCluster lib parse K c (cluster_name x) x s w = ((err, s1), w1)" by (metis surj_pair)
  then have rest: "register_clusters lib parse K c cs s1 w1 = (([], s'), w')" and "err = None"
    using Cons.prems(1) by (auto split: prod.splits option.splits)
  with registerCluster_effect [OF one] Cons.prems(2) have "in_sync lib s1" and "(server_step lib parse)\<^sup>*\<^sup>* s s1" by auto
  moreover from this(2) have "server_ok s1" using Cons.prems(2) by (rule server.steps_invar)
  ultimately show ?case using Cons.IH [OF rest] by blast
qed auto

lemma remove_clusters_server:
  "snd (remove_clusters lib spec ns s) = registry.remove_all lib s (filter (\<lambda>n. n \<notin> set spec) ns)"
proof (induction ns arbitrary: s)
  case (Cons n ns)
  obtain err s1 where one: "RemoveCluster lib s n = (err, s1)" by fastforce
  show ?case using one Cons.IH [of s] Cons.IH [of s1]
    by (simp add: registry.remove_all.simps case_prod_beta)
qed (simp add: registry.remove_all.simps)

lemma remove_clusters_steps: "(server_step lib parse)\<^sup>*\<^sup>* s (snd (remove_clusters lib spec ns s))"
proof (induction ns arbitrary: s)
  case (Cons n ns)
  obtain err s1 where one: "RemoveCluster lib s n = (err, s1)" by fastforce
  from step_remove [OF one] Cons.IH [of s1] have "(server_step lib parse)\<^sup>*\<^sup>* s (snd (remove_clusters lib spec ns s1))"
    by (rule converse_rtranclp_into_rtranclp)
  with Cons.IH [of s] one show ?case by (auto split: prod.splits)
qed simp

lemma remove_clusters_names:
  "set (server_Clusters (snd (remove_clusters lib spec (server_Clusters s) s))) = set (server_Clusters s) \<inter> set spec"
  by (auto simp: remove_clusters_server registry.remove_all_names)

lemma remove_clusters_in_sync:
  assumes "remove_clusters lib spec ns s = ([], s')" and "server_ok s" and "in_sync lib s \<or> \<not> set ns \<subseteq> set spec"
  shows "in_sync lib s'"
  using assms
proof (induction ns arbitrary: s)
  case (Cons n ns)
  show ?case
  proof (cases "n \<in> set spec")
    case False
    obtain err s1 where one: "RemoveCluster lib s n = (err, s1)" by fastforce
    with False Cons.prems(1) have rest: "remove_clusters lib spec ns s1 = ([], s')" and "err = None"
      by (auto split: prod.splits option.splits)
    with one have "in_sync lib s1" using RemoveCluster_in_sync [OF Cons.prems(2)] by blast
    moreover have "server_ok s1" using server_ok_step [OF Cons.prems(2) step_remove [OF one]] .
    ultimately show ?thesis using Cons.IH [OF rest] by blast
  next
    case True
    with Cons show ?thesis by auto
  qed
qed auto

text \<open>The parts of a pass.\<close>

lemma applyKubeconfigSecret_keeps:
  assumes "applyKubeconfigSecret lib K c s aa w = ((err, aa'), w')"
  shows "ready_condition aa' = ready_condition aa \<and> sts_URL (aa_Status aa') = sts_URL (aa_Status aa) \<and>
    (err = None \<longrightarrow> sts_KubeconfigSecret (aa_Status aa') = kubeconfigSecretName (aa_name aa))"
  using assms by (auto simp: applyKubeconfigSecret_def ready_condition_def split: sum.splits prod.splits)

definition reported ::
  "('w, 'h, 'c) k8s_libs \<Rightarrow> ('w, 'h, 'c) Controller \<Rightarrow> ('w, 'h, 'd) server \<Rightarrow> go_error list \<Rightarrow> AggregatedAPI \<Rightarrow> AggregatedAPI" where
  "reported K c s failures aa =
     (let aa1 = (if failures = [] then setConditionReady K True ''ClustersRegistered'' ''all clusters registered'' aa
          else setConditionReady K False ''ClusterRegistrationFailed''
            (error_text (k8s_statusText K) (Join failures)) aa)
      in aa1\<lparr>aa_Status := (aa_Status aa1)\<lparr>sts_URL := reconciler_url c s\<rparr>\<rparr>)"

lemma aggregator_run_parts:
  assumes "aggregator_run lib parse K c aa s w = ((err, aa', s'), w')"
  obtains failures s1 w1 failures' secretErr aa2 where
    "register_clusters lib parse K c (sp_Clusters (aa_Spec aa)) s w = ((failures, s1), w1)"
    "remove_clusters lib (spec_names aa) (server_Clusters s1) s1 = (failures', s')"
    "aa2 = reported K c s' (failures @ failures') aa"
    "applyKubeconfigSecret lib K c s' aa2 w1 = ((secretErr, aa'), w')"
    "err = None \<longleftrightarrow> failures @ failures' = [] \<and> secretErr = None"
proof -
  have join: "[e. Some e \<leftarrow> map Some es] = (es :: go_error list)" for es by (induction es) auto
  obtain failures s1 w1 where a: "register_clusters lib parse K c (sp_Clusters (aa_Spec aa)) s w = ((failures, s1), w1)"
    by (metis surj_pair)
  obtain failures' s2 where b: "remove_clusters lib (spec_names aa) (server_Clusters s1) s1 = (failures', s2)" by fastforce
  define aa2 where "aa2 = reported K c s2 (failures @ failures') aa"
  obtain secretErr aa3 w2 where d: "applyKubeconfigSecret lib K c s2 aa2 w1 = ((secretErr, aa3), w2)" by (metis surj_pair)
  have e: "errors_Join (map Some (failures @ failures')) =
      (if failures @ failures' = [] then None else Some (Join (failures @ failures')))"
    by (simp only: errors_Join_def join Let_def)
  let ?err = "errors_Join (map Some (failures @ failures'))"
  have "aggregator_run lib parse K c aa s w = (((case secretErr of None \<Rightarrow> ?err
      | Some e \<Rightarrow> errors_Join [?err, Some (Wrapf ''applying kubeconfig Secret: %w'' [] e)]), aa3, s2), w2)"
  proof (cases "failures @ failures' = []")
    case True
    with e have "?err = None" by simp
    then show ?thesis using d True
      unfolding aggregator_run_def a b prod.case Let_def aa2_def reported_def by (simp only: option.case prod.case if_True refl)
  next
    case False
    with e have "?err = Some (Join (failures @ failures'))" by (simp only: if_False)
    then show ?thesis using d False
      unfolding aggregator_run_def a b prod.case Let_def aa2_def reported_def by (simp only: option.case prod.case if_False)
  qed
  with assms have res: "err = (case secretErr of None \<Rightarrow> ?err
      | Some e \<Rightarrow> errors_Join [?err, Some (Wrapf ''applying kubeconfig Secret: %w'' [] e)])"
    and same: "s' = s2" "aa' = aa3" "w' = w2" by simp_all
  from res have "err = None \<longleftrightarrow> failures @ failures' = [] \<and> secretErr = None"
    using e by (cases secretErr) (simp_all del: map_append append_is_Nil_conv)
  then show ?thesis using that [OF a _ _ _ _, of failures' aa2 secretErr] b d aa2_def same by blast
qed


lemma run_names:
  assumes "register_clusters lib parse K c (sp_Clusters (aa_Spec aa)) s w = ((failures, s1), w1)"
    and "remove_clusters lib (spec_names aa) (server_Clusters s1) s1 = (failures', s')"
  shows "set (server_Clusters s') \<subseteq> set (spec_names aa) \<and>
    set (server_Clusters s) \<inter> set (spec_names aa) \<subseteq> set (server_Clusters s') \<and>
    (failures = [] \<longrightarrow> set (server_Clusters s') = set (spec_names aa))"
proof -
  have "set (server_Clusters s') = set (server_Clusters s1) \<inter> set (spec_names aa)"
    using remove_clusters_names [of lib "spec_names aa" s1] assms(2) by simp
  with register_clusters_effect [OF assms(1)] show ?thesis by blast
qed

lemma run_in_sync:
  assumes "register_clusters lib parse K c (sp_Clusters (aa_Spec aa)) s w = (([], s1), w1)"
    and "remove_clusters lib (spec_names aa) (server_Clusters s1) s1 = ([], s')" and "idle_ok s"
  shows "in_sync lib s'"
proof -
  have ok: "server_ok s" using assms(3) by (simp add: idle_ok_def)
  have ok1: "server_ok s1"
    using register_clusters_effect [OF assms(1)] server.steps_invar [OF _ ok] by blast
  show ?thesis
  proof (cases "sp_Clusters (aa_Spec aa) = []")
    case True
    with assms(1) have "s1 = s" by simp
    show ?thesis
    proof (cases "sv_members s")
      case Nil
      then have "in_sync lib s1" using idle_in_sync [OF assms(3)] \<open>s1 = s\<close> by simp
      with assms(2) ok1 show ?thesis by (blast intro: remove_clusters_in_sync)
    next
      case (Cons m ms)
      then have "\<not> set (server_Clusters s1) \<subseteq> set (spec_names aa)"
        using True \<open>s1 = s\<close> by (simp add: server_Clusters_def)
      with assms(2) ok1 show ?thesis by (blast intro: remove_clusters_in_sync)
    qed
  next
    case False
    then have "in_sync lib s1" using register_clusters_in_sync [OF assms(1) ok] by blast
    with assms(2) ok1 show ?thesis by (blast intro: remove_clusters_in_sync)
  qed
qed

lemma aggregator_reconcile_found:
  assumes "hc_GetAggregatedAPI (co_Client c) (co_Namespace c) (co_AggregatedAPI c) w = (Inr aa, w1)"
    and "Reconcile lib parse K c (co_Namespace c, co_AggregatedAPI c) s w = ((err, s'), w')"
  obtains err1 aa' w2 err2 where "aggregator_run lib parse K c aa s w1 = ((err1, aa', s'), w2)"
    and "commitStatus c aa aa' w2 = (err2, w')" and "err = None \<longleftrightarrow> err1 = None \<and> err2 = None"
proof -
  obtain err1 aa' s2 w2 where run: "aggregator_run lib parse K c aa s w1 = ((err1, aa', s2), w2)" by (metis surj_pair)
  obtain err2 w3 where commit: "commitStatus c aa aa' w2 = (err2, w3)" by fastforce
  have "Reconcile lib parse K c (co_Namespace c, co_AggregatedAPI c) s w = ((errors_Join [err1, err2], s2), w3)"
    by (simp add: Reconcile_def aggregator_reconcile_def fetchAggregatedAPI_def assms(1) run commit)
  with assms(2) have "err = errors_Join [err1, err2]" "s' = s2" "w' = w3" by simp_all
  with run commit that [of err1 aa' w2 err2] show ?thesis by simp
qed

lemma ready_condition_set:
  "conditions_law (k8s_SetStatusCondition K) \<Longrightarrow>
     ready_condition (setConditionReady K status reason message aa) =
       Some \<lparr>cond_Type = AggregatedAPIConditionReady, cond_Status = (if \<not> status then ''False'' else ''True''),
         cond_ObservedGeneration = aa_generation aa, cond_Reason = reason, cond_Message = message\<rparr>"
  by (auto simp: conditions_law_def setConditionReady_def ready_condition_def)
    (metis Condition.select_convs(1))+

lemma run_status:
  assumes "conditions_law (k8s_SetStatusCondition K)" and "aggregator_run lib parse K c aa s w = ((err, aa', s'), w')"
    and "register_clusters lib parse K c (sp_Clusters (aa_Spec aa)) s w = ((failures, s1), w1)"
    and "remove_clusters lib (spec_names aa) (server_Clusters s1) s1 = (failures', s'')"
  shows "s'' = s' \<and> (\<exists>cond. ready_condition aa' = Some cond \<and> cond_ObservedGeneration cond = aa_generation aa \<and>
      cond_Status cond = (if failures @ failures' = [] then ''True'' else ''False'')) \<and>
    sts_URL (aa_Status aa') = reconciler_url c s' \<and>
    (err = None \<longrightarrow> failures @ failures' = [] \<and> sts_KubeconfigSecret (aa_Status aa') = kubeconfigSecretName (aa_name aa))"
proof -
  from assms(2) obtain secretErr aa2 where
    aa2: "aa2 = reported K c s' (failures @ failures') aa"
    and apply_: "applyKubeconfigSecret lib K c s' aa2 w1 = ((secretErr, aa'), w')"
    and err: "err = None \<longleftrightarrow> failures @ failures' = [] \<and> secretErr = None" and s': "s'' = s'"
  proof (rule aggregator_run_parts)
    fix fs t1 v1 fs' secretErr aa2
    assume reg: "register_clusters lib parse K c (sp_Clusters (aa_Spec aa)) s w = ((fs, t1), v1)"
      and rem: "remove_clusters lib (spec_names aa) (server_Clusters t1) t1 = (fs', s')"
    from reg assms(3) have same: "fs = failures" "t1 = s1" "v1 = w1" by simp_all
    from rem assms(4) have "fs' = failures'" "s'' = s'" by (simp_all add: same)
    moreover assume "aa2 = reported K c s' (fs @ fs') aa"
      and "applyKubeconfigSecret lib K c s' aa2 v1 = ((secretErr, aa'), w')"
      and "(err = None) = (fs @ fs' = [] \<and> secretErr = None)"
    ultimately show ?thesis using that [of aa2 secretErr] same by simp
  qed
  have url: "ready_condition (x\<lparr>aa_Status := (aa_Status x)\<lparr>sts_URL := u\<rparr>\<rparr>) = ready_condition x" for x u
    by (simp add: ready_condition_def)
  have name: "aa_name aa2 = aa_name aa" and uu: "sts_URL (aa_Status aa2) = reconciler_url c s'"
    by (simp_all add: aa2 reported_def setConditionReady_def Let_def)
  have "\<exists>cond. ready_condition aa2 = Some cond \<and> cond_ObservedGeneration cond = aa_generation aa \<and>
      cond_Status cond = (if failures @ failures' = [] then ''True'' else ''False'')"
    unfolding aa2 reported_def Let_def url by (simp add: ready_condition_set [OF assms(1)])
  with applyKubeconfigSecret_keeps [OF apply_] err name uu s' show ?thesis by auto
qed

text \<open>A cluster whose Secret cannot be read.\<close>

lemma registerCluster_no_secret:
  "hc_GetSecret (co_Client c) (co_Namespace c) name w = (Inl e, w) \<Longrightarrow>
     registerCluster lib parse K c name cluster s w = ((Some (Wrapf ''getting kubeconfig Secret: %w'' [] e), s), w)"
  by (simp add: registerCluster_def)

lemma register_clusters_without:
  assumes "\<forall>w. hc_GetSecret (co_Client c) (co_Namespace c) bad w = (Inl e, w)"
    and "register_clusters lib parse K c cs s w = ((failures, s'), w')"
  shows "(\<exists>failures'. register_clusters lib parse K c (filter (\<lambda>x. cluster_name x \<noteq> bad) cs) s w = ((failures', s'), w')) \<and>
    (bad \<in> set (map cluster_name cs) \<longrightarrow> failures \<noteq> [])"
  using assms(2)
proof (induction cs arbitrary: s w failures)
  case (Cons x cs)
  obtain err s1 w1 where one: "registerCluster lib parse K c (cluster_name x) x s w = ((err, s1), w1)" by (metis surj_pair)
  obtain fs where rest: "register_clusters lib parse K c cs s1 w1 = ((fs, s'), w')"
    and fs: "failures = [] \<longrightarrow> fs = [] \<and> err = None"
    using Cons.prems one by (auto split: prod.splits option.splits)
  show ?case
  proof (cases "cluster_name x = bad")
    case True
    then have "err \<noteq> None" "s1 = s" "w1 = w"
      using one registerCluster_no_secret [OF assms(1) [THEN spec, of w], of lib parse K x s] by auto
    with Cons.IH [OF rest] fs True show ?thesis by auto
  next
    case False
    from Cons.IH [OF rest] obtain fs' where
      "register_clusters lib parse K c (filter (\<lambda>x. cluster_name x \<noteq> bad) cs) s1 w1 = ((fs', s'), w')" by blast
    with False one have "\<exists>failures'. register_clusters lib parse K c (filter (\<lambda>x. cluster_name x \<noteq> bad) (x # cs)) s w =
        ((failures', s'), w')" by simp
    with Cons.IH [OF rest] fs False show ?thesis by auto
  qed
qed simp

lemma remove_clusters_cong:
  "\<forall>n \<in> set ns. n \<in> set spec \<longleftrightarrow> n \<in> set spec' \<Longrightarrow> remove_clusters lib spec ns s = remove_clusters lib spec' ns s"
  by (induction ns arbitrary: s) (auto split: prod.splits)


lemma applyKubeconfigSecret_ok:
  assumes "applyKubeconfigSecret lib K c s aa w = ((None, aa'), w')"
  shows "\<exists>raw secret. k8s_Write K (endpoint_kubeconfig (reconciler_url c s)) = Inr raw \<and>
    sec_Name secret = kubeconfigSecretName (aa_name aa) \<and> sec_Namespace secret = aa_namespace aa \<and>
    sec_Data secret = [''kubeconfig'' \<mapsto> raw] \<and>
    hc_ApplySecret (co_Client c) secret ControllerName True w = (Inr (), w')"
proof -
  from assms obtain raw where raw: "k8s_Write K (endpoint_kubeconfig (reconciler_url c s)) = Inr raw"
    and call: "hc_ApplySecret (co_Client c) (kubeconfig_secret lib K aa raw) ControllerName True w = (Inr (), w')"
    by (auto simp: applyKubeconfigSecret_def kubeconfigForURL_def split: sum.splits prod.splits)
  moreover have "sec_Name (kubeconfig_secret lib K aa raw) = kubeconfigSecretName (aa_name aa)"
    "sec_Namespace (kubeconfig_secret lib K aa raw) = aa_namespace aa"
    "sec_Data (kubeconfig_secret lib K aa raw) = [''kubeconfig'' \<mapsto> raw]" by (simp_all add: kubeconfig_secret_def)
  ultimately show ?thesis by blast
qed

lemma reported_names [simp]:
  "aa_name (reported K c s fs aa) = aa_name aa" "aa_namespace (reported K c s fs aa) = aa_namespace aa"
  by (simp_all add: reported_def setConditionReady_def Let_def)

lemma reconcile_success:
  assumes "(server_step lib parse)\<^sup>*\<^sup>* (server_New opts) s"
    and "hc_GetAggregatedAPI (co_Client c) (co_Namespace c) (co_AggregatedAPI c) w = (Inr aa, w1)"
    and "Reconcile lib parse K c (co_Namespace c, co_AggregatedAPI c) s w = ((None, s'), w')"
  shows "set (server_Clusters s') = set (spec_names aa) \<and> in_sync lib s' \<and>
    (server_step lib parse)\<^sup>*\<^sup>* (server_New opts) s'"
proof -
  obtain aa' w2 where "aggregator_run lib parse K c aa s w1 = ((None, aa', s'), w2)"
    using aggregator_reconcile_found [OF assms(2,3)] by metis
  then obtain s1 v1 where reg: "register_clusters lib parse K c (sp_Clusters (aa_Spec aa)) s w1 = (([], s1), v1)"
    and rem: "remove_clusters lib (spec_names aa) (server_Clusters s1) s1 = ([], s')"
    by (rule aggregator_run_parts) auto
  have "idle_ok s" by (rule idle.reached_invar [OF refl assms(1)])
  with run_in_sync [OF reg rem] have "in_sync lib s'" by blast
  moreover have "(server_step lib parse)\<^sup>*\<^sup>* s s1" using register_clusters_effect [OF reg] by blast
  moreover have "(server_step lib parse)\<^sup>*\<^sup>* s1 s'"
    using remove_clusters_steps [of lib parse s1 "spec_names aa" "server_Clusters s1"] rem by simp
  ultimately show ?thesis using run_names [OF reg rem] assms(1) by (meson rtranclp_trans)
qed

text \<open>
  An event on the controller's own object or on any Secret leads to a pass, one on another object to
  nothing.
\<close>

lemma events_reconcile:
  assumes "req \<in> set (event_requests c ev)"
  shows "Reconcile lib parse K c req s w =
    (if (case ev of AggregatedAPI_event aa \<Rightarrow> aa_name aa = co_AggregatedAPI c \<and> aa_namespace aa = co_Namespace c
         | Secret_event secret \<Rightarrow> True)
     then aggregator_reconcile lib parse K c s w else ((None, s), w))"
  using assms by (cases ev) (auto simp: event_requests_def secret_requests_def aggregator_SetupWithManager_def Reconcile_def)

section \<open>A concrete host cluster\<close>

definition demo_api :: "string list \<Rightarrow> AggregatedAPI" where
  "demo_api names =
     \<lparr>aa_namespace = ''team'', aa_name = ''web'', aa_uid = ''1'', aa_generation = 3, aa_deletionTimestamp = False,
      aa_finalizers = [], aa_Spec = \<lparr>sp_Image = '''', sp_ResyncInterval = None,
        sp_Clusters = map (\<lambda>n. \<lparr>ac_Access = \<lparr>ca_KubeconfigName = n\<rparr>, ac_APIs = any_resource\<rparr>) names\<rparr>,
      aa_Status = \<lparr>sts_Conditions = [], sts_URL = '''', sts_KubeconfigSecret = ''''\<rparr>\<rparr>"

definition demo_secret :: "string \<Rightarrow> Secret" where
  "demo_secret name =
     \<lparr>sec_APIVersion = ''v1'', sec_Kind = ''Secret'', sec_Name = name, sec_Namespace = ''team'',
      sec_OwnerReferences = [], sec_Data = [''kubeconfig'' \<mapsto> name]\<rparr>"

text \<open>Every Secret but the one of the cluster \<open>gone\<close> can be read.\<close>

definition demo_host :: "string list \<Rightarrow> 'w host_client" where
  "demo_host names =
     \<lparr>hc_GetAggregatedAPI = (\<lambda>ns name w. (Inr (demo_api names), w)),
      hc_GetSecret = (\<lambda>ns name w. (if name = ''gone'' then Inl unreachable else Inr (demo_secret name), w)),
      hc_ApplySecret = (\<lambda>secret owner force w. (Inr (), w)),
      hc_PatchStatus = (\<lambda>new old w. (Inr (), w))\<rparr>"

definition demo_k8s :: "(mem, nat, string) k8s_libs" where
  "demo_k8s =
     \<lparr>k8s_RESTConfigFromKubeConfig = Inr, k8s_Write = (\<lambda>kc. Inr (kcl_Server (snd (hd (kc_Clusters kc))))),
      k8s_NewControllerRef = (\<lambda>aa gvk. \<lparr>or_APIVersion = '''', or_Kind = gvk_kind gvk, or_Name = aa_name aa,
         or_UID = aa_uid aa, or_Controller = True\<rparr>),
      k8s_SetStatusCondition = (\<lambda>cs c. filter (\<lambda>d. cond_Type d \<noteq> cond_Type c) cs @ [c]),
      k8s_NewDiscoveryClientForConfig = (\<lambda>c. Inr demo_discovery), k8s_NewDynamicForConfig = (\<lambda>c. Inr (mem_client c)),
      k8s_statusText = (\<lambda>st. '''')\<rparr>"

definition demo_controller :: "string \<Rightarrow> string list \<Rightarrow> (mem, nat, string) Controller" where
  "demo_controller url names =
     \<lparr>co_AggregatedAPI = ''web'', co_Namespace = ''team'', co_Client = demo_host names, co_URL = url,
      co_DiscoveryClient = (\<lambda>c. Inr demo_discovery), co_DynamicClient = (\<lambda>c. Inr (mem_client c))\<rparr>"

lemma demo_conditions: "conditions_law (k8s_SetStatusCondition demo_k8s)"
proof -
  have "find_condition (filter (\<lambda>d. cond_Type d \<noteq> cond_Type c) cs @ [c]) (cond_Type c) = Some c" for cs c
    by (induction cs) (auto simp: find_condition_def)
  moreover have "find_condition (filter (\<lambda>d. cond_Type d \<noteq> cond_Type c) cs @ [c]) t = find_condition cs t"
    if "t \<noteq> cond_Type c" for cs c t using that by (induction cs) (auto simp: find_condition_def)
  ultimately show ?thesis by (simp add: conditions_law_def demo_k8s_def)
qed

lemma demo_register_east:
  "registerCluster demo_libs apps_v1 demo_k8s (demo_controller url names) ''east''
     \<lparr>ac_Access = \<lparr>ca_KubeconfigName = ''east''\<rparr>, ac_APIs = any_resource\<rparr> (server_New demo_options) web_east =
     ((None, with_east), web_east)"
proof -
  have "SetCluster demo_libs apps_v1 (server_New demo_options) ''east'' (mem_client ''east'') demo_discovery any_resource
      web_east = ((None, with_east), web_east)" using with_east_set by (auto simp: with_east_def)
  then show ?thesis
    by (simp add: registerCluster_def demo_controller_def demo_host_def demo_secret_def restConfigFromSecret_def demo_k8s_def)
qed

lemma remove_clusters_none: "set ns \<subseteq> set spec \<Longrightarrow> remove_clusters lib spec ns s = ([], s)"
  by (induction ns) auto

lemma demo_parts:
  "register_clusters demo_libs apps_v1 demo_k8s (demo_controller url names) (sp_Clusters (aa_Spec (demo_api [''east''])))
     (server_New demo_options) web_east = (([], with_east), web_east)"
  "remove_clusters demo_libs (spec_names (demo_api [''east''])) (server_Clusters with_east) with_east = ([], with_east)"
proof -
  show reg: "register_clusters demo_libs apps_v1 demo_k8s (demo_controller url names) (sp_Clusters (aa_Spec (demo_api [''east''])))
     (server_New demo_options) web_east = (([], with_east), web_east)"
    by (simp add: demo_api_def demo_register_east)
  have "server_Clusters (server_New demo_options :: (mem, nat, unit) server) = []"
    by (simp add: server_Clusters_def server_New_def sort_Strings_def sort_Slice_def)
  with register_clusters_effect [OF reg] have "set (server_Clusters with_east) \<subseteq> {''east''}"
    by (simp add: demo_api_def)
  then show "remove_clusters demo_libs (spec_names (demo_api [''east''])) (server_Clusters with_east) with_east = ([], with_east)"
    by (intro remove_clusters_none) (simp add: demo_api_def)
qed

lemma demo_run:
  "\<exists>aa'. aggregator_run demo_libs apps_v1 demo_k8s (demo_controller url names) (demo_api [''east'']) (server_New demo_options)
     web_east = ((None, aa', with_east), web_east)"
proof -
  have "errors_Join (map Some ([] @ [])) = None" by simp
  then show ?thesis
    unfolding aggregator_run_def demo_parts prod.case Let_def
    by (simp add: applyKubeconfigSecret_def kubeconfigForURL_def demo_controller_def demo_host_def)
      (simp add: demo_k8s_def)
qed

lemma demo_reconcile:
  "Reconcile demo_libs apps_v1 demo_k8s (demo_controller url [''east'']) (''team'', ''web'') (server_New demo_options) web_east =
     ((None, with_east), web_east)"
proof -
  obtain aa' where run: "aggregator_run demo_libs apps_v1 demo_k8s (demo_controller url [''east'']) (demo_api [''east''])
      (server_New demo_options) web_east = ((None, aa', with_east), web_east)" using demo_run by blast
  have "fetchAggregatedAPI (demo_controller url [''east'']) web_east = (Inr (Some (demo_api [''east''])), web_east)"
    by (simp add: fetchAggregatedAPI_def demo_controller_def demo_host_def)
  moreover have "commitStatus (demo_controller url [''east'']) (demo_api [''east'']) aa' web_east = (None, web_east)"
    by (simp add: commitStatus_def demo_controller_def demo_host_def)
  ultimately have "aggregator_reconcile demo_libs apps_v1 demo_k8s (demo_controller url [''east'']) (server_New demo_options)
      web_east = ((errors_Join [None, None], with_east), web_east)"
    by (simp only: aggregator_reconcile_def prod.case sum.case option.case run)
  then show ?thesis by (simp add: Reconcile_def) (simp add: demo_controller_def)
qed


section \<open>Properties\<close>

text \<open>
  A reconcile pass that succeeds leaves the server with exactly the clusters of the object's spec,
  serving exactly the union of what they offer, from whatever state earlier registrations, failures
  and resyncs had left the server in.
\<close>

theorem reconcile_serves_spec:
  assumes "(server_step lib parse)\<^sup>*\<^sup>* (server_New opts) s"
    and "hc_GetAggregatedAPI (co_Client c) (co_Namespace c) (co_AggregatedAPI c) w = (Inr aa, w1)"
    and "Reconcile lib parse K c (co_Namespace c, co_AggregatedAPI c) s w = ((None, s'), w')"
  shows "set (server_Clusters s') = set (spec_names aa) \<and> in_sync lib s' \<and>
    (server_step lib parse)\<^sup>*\<^sup>* (server_New opts) s'"
  using assms by (rule reconcile_success)

theorem reconcile_serves_spec_witness: "set (server_Clusters with_east) = {''east''} \<and> in_sync demo_libs with_east"
proof -
  have "hc_GetAggregatedAPI (co_Client (demo_controller ''https://web'' [''east''])) (co_Namespace (demo_controller ''https://web'' [''east'']))
      (co_AggregatedAPI (demo_controller ''https://web'' [''east''])) web_east = (Inr (demo_api [''east'']), web_east)"
    by (simp add: demo_controller_def demo_host_def)
  moreover have "(co_Namespace (demo_controller ''https://web'' [''east'']), co_AggregatedAPI (demo_controller ''https://web'' [''east''])) = (''team'', ''web'')"
    by (simp add: demo_controller_def)
  ultimately have "set (server_Clusters with_east) = set (spec_names (demo_api [''east''])) \<and> in_sync demo_libs with_east"
    using reconcile_serves_spec [OF rtranclp.rtrancl_refl _ demo_reconcile [folded \<open>_ = (''team'', ''web'')\<close>]] by blast
  then show ?thesis by (simp add: demo_api_def)
qed

text \<open>
  C26. The Ready condition tells the truth: after a pass, whatever failed in it, the server has no
  cluster that is not in the spec and has lost none that is; the condition is for the generation that
  was read, it is True exactly when every registration and every removal succeeded, and then all
  clusters of the spec are registered.
\<close>

theorem ready_truthful:
  assumes "conditions_law (k8s_SetStatusCondition K)"
    and "aggregator_run lib parse K c aa s w = ((err, aa', s'), w')"
  shows "\<exists>cond failures s1 w1 failures'. ready_condition aa' = Some cond \<and> cond_ObservedGeneration cond = aa_generation aa \<and>
    register_clusters lib parse K c (sp_Clusters (aa_Spec aa)) s w = ((failures, s1), w1) \<and>
    remove_clusters lib (spec_names aa) (server_Clusters s1) s1 = (failures', s') \<and>
    (cond_Status cond = ''True'' \<longleftrightarrow> failures = [] \<and> failures' = []) \<and>
    (cond_Status cond = ''True'' \<longrightarrow> set (server_Clusters s') = set (spec_names aa)) \<and>
    (err = None \<longrightarrow> cond_Status cond = ''True'') \<and>
    set (server_Clusters s') \<subseteq> set (spec_names aa) \<and>
    set (server_Clusters s) \<inter> set (spec_names aa) \<subseteq> set (server_Clusters s')"
proof -
  obtain failures s1 w1 where reg: "register_clusters lib parse K c (sp_Clusters (aa_Spec aa)) s w = ((failures, s1), w1)"
    by (metis surj_pair)
  obtain failures' s2 where rem: "remove_clusters lib (spec_names aa) (server_Clusters s1) s1 = (failures', s2)" by fastforce
  note st = run_status [OF assms reg rem]
  then obtain cond where "ready_condition aa' = Some cond" "cond_ObservedGeneration cond = aa_generation aa"
    "cond_Status cond = (if failures @ failures' = [] then ''True'' else ''False'')" by blast
  with st reg rem run_names [OF reg rem] show ?thesis
    by (intro exI [of _ cond] exI [of _ failures] exI [of _ s1] exI [of _ w1] exI [of _ failures']) auto
qed

theorem ready_truthful_witness:
  "\<exists>aa' cond. aggregator_run demo_libs apps_v1 demo_k8s (demo_controller ''https://web'' [''east'']) (demo_api [''east''])
     (server_New demo_options) web_east = ((None, aa', with_east), web_east) \<and>
     ready_condition aa' = Some cond \<and> cond_Status cond = ''True''"
proof -
  obtain aa' where run: "aggregator_run demo_libs apps_v1 demo_k8s (demo_controller ''https://web'' [''east'']) (demo_api [''east''])
      (server_New demo_options) web_east = ((None, aa', with_east), web_east)" using demo_run by blast
  with ready_truthful [OF demo_conditions run] show ?thesis by blast
qed



text \<open>
  C35. A pass that succeeds publishes its outcome: the status has Ready True for the generation read,
  the URL of the endpoint and the name of the kubeconfig Secret; a Secret of that name with a
  kubeconfig for that URL has been applied; and the status has been patched, unless the object
  already had it.
\<close>

theorem reconcile_publishes:
  assumes "conditions_law (k8s_SetStatusCondition K)"
    and "hc_GetAggregatedAPI (co_Client c) (co_Namespace c) (co_AggregatedAPI c) w = (Inr aa, w1)"
    and "Reconcile lib parse K c (co_Namespace c, co_AggregatedAPI c) s w = ((None, s'), w')"
  shows "\<exists>aa' cond raw secret w2 w3. ready_condition aa' = Some cond \<and> cond_Status cond = ''True'' \<and>
    cond_ObservedGeneration cond = aa_generation aa \<and> sts_URL (aa_Status aa') = reconciler_url c s' \<and>
    sts_KubeconfigSecret (aa_Status aa') = sec_Name secret \<and> sec_Name secret = kubeconfigSecretName (aa_name aa) \<and>
    k8s_Write K (endpoint_kubeconfig (reconciler_url c s')) = Inr raw \<and> sec_Namespace secret = aa_namespace aa \<and>
    sec_Data secret = [''kubeconfig'' \<mapsto> raw] \<and>
    hc_ApplySecret (co_Client c) secret ControllerName True w2 = (Inr (), w3) \<and>
    (if aa_Status aa = aa_Status aa' then w' = w3 else hc_PatchStatus (co_Client c) aa' aa w3 = (Inr (), w'))"
proof -
  obtain aa' w3 where run: "aggregator_run lib parse K c aa s w1 = ((None, aa', s'), w3)"
    and commit: "commitStatus c aa aa' w3 = (None, w')" by (metis aggregator_reconcile_found [OF assms(2,3)])
  from run obtain s1 w2 aa2 where
    reg: "register_clusters lib parse K c (sp_Clusters (aa_Spec aa)) s w1 = (([], s1), w2)"
    and rem: "remove_clusters lib (spec_names aa) (server_Clusters s1) s1 = ([], s')"
    and aa2: "aa2 = reported K c s' [] aa" and apply_: "applyKubeconfigSecret lib K c s' aa2 w2 = ((None, aa'), w3)"
    by (rule aggregator_run_parts) auto
  have "(if aa_Status aa = aa_Status aa' then w' = w3 else hc_PatchStatus (co_Client c) aa' aa w3 = (Inr (), w'))"
    using commit by (auto simp: commitStatus_def split: if_splits prod.splits sum.splits)
  moreover from run_status [OF assms(1) run reg rem] obtain cond where "ready_condition aa' = Some cond"
    "cond_Status cond = ''True''" "cond_ObservedGeneration cond = aa_generation aa"
    "sts_URL (aa_Status aa') = reconciler_url c s'"
    "sts_KubeconfigSecret (aa_Status aa') = kubeconfigSecretName (aa_name aa)" by auto
  moreover from applyKubeconfigSecret_ok [OF apply_] obtain raw secret where
    "k8s_Write K (endpoint_kubeconfig (reconciler_url c s')) = Inr raw" "sec_Name secret = kubeconfigSecretName (aa_name aa)"
    "sec_Namespace secret = aa_namespace aa" "sec_Data secret = [''kubeconfig'' \<mapsto> raw]"
    "hc_ApplySecret (co_Client c) secret ControllerName True w2 = (Inr (), w3)" unfolding aa2 by auto
  ultimately show ?thesis by (intro exI conjI) simp_all
qed

theorem reconcile_publishes_witness:
  "\<exists>aa' cond (secret :: Secret). ready_condition aa' = Some cond \<and> cond_Status cond = ''True'' \<and> sts_URL (aa_Status aa') = ''https://web'' \<and>
     sec_Data secret = [''kubeconfig'' \<mapsto> ''https://web'']"
proof -
  let ?c = "demo_controller ''https://web'' [''east'']"
  have get: "hc_GetAggregatedAPI (co_Client ?c) (co_Namespace ?c) (co_AggregatedAPI ?c) web_east = (Inr (demo_api [''east'']), web_east)"
    by (simp add: demo_controller_def demo_host_def)
  have key: "(co_Namespace ?c, co_AggregatedAPI ?c) = (''team'', ''web'')" by (simp add: demo_controller_def)
  have url: "reconciler_url ?c with_east = ''https://web''" by (simp add: reconciler_url_def demo_controller_def)
  have enc: "k8s_Write demo_k8s (endpoint_kubeconfig u) = Inr u" for u
    by (simp add: demo_k8s_def endpoint_kubeconfig_def)
  from reconcile_publishes [OF demo_conditions get demo_reconcile [folded key]] obtain aa' cond raw and secret :: Secret where
    "ready_condition aa' = Some cond" "cond_Status cond = ''True''" "sts_URL (aa_Status aa') = reconciler_url ?c with_east"
    "k8s_Write demo_k8s (endpoint_kubeconfig (reconciler_url ?c with_east)) = Inr raw"
    "sec_Data secret = [''kubeconfig'' \<mapsto> raw]" by (elim exE conjE) (rule that)
  then show ?thesis unfolding url enc by auto
qed

end
