(* ===== verification/Duration.thy ===== *)
theory Duration
  imports Prelude
begin

text \<open>
  Durations of the standard library: \<open>time.Duration\<close> counts nanoseconds in 64 bits.
  \<open>Duration.String\<close> prints one, as the operator does to hand the resync interval to its child, and
  \<open>time.ParseDuration\<close> reads it back, as the flag package does in the child. The round trip holds for
  every 64-bit value.
\<close>

section \<open>Definitions\<close>

definition Nanosecond :: nat where "Nanosecond = 1"
definition Microsecond :: nat where "Microsecond = 1000"
definition Millisecond :: nat where "Millisecond = 1000000"
definition Second :: nat where "Second = 1000000000"
definition Minute :: nat where "Minute = 60000000000"
definition Hour :: nat where "Hour = 3600000000000"

definition digit_char :: "nat \<Rightarrow> char" where
  "digit_char d = char_of (48 + d)"

text \<open>
  \<open>fmtFrac\<close>: the loop over the digits of the fraction, from the last to the first, that leaves out
  trailing zeros; then the point, if any digit was printed.
\<close>

fun frac_digits :: "nat \<Rightarrow> nat \<Rightarrow> bool \<Rightarrow> string \<Rightarrow> bool \<times> string \<times> nat" where
  "frac_digits 0 v printed acc = (printed, acc, v)"
| "frac_digits (Suc prec) v printed acc =
     (let digit = v mod 10; printed = (printed \<or> digit \<noteq> 0)
      in frac_digits prec (v div 10) printed (if printed then digit_char digit # acc else acc))"

definition fmtFrac :: "nat \<Rightarrow> nat \<Rightarrow> string \<times> nat" where
  "fmtFrac v prec =
     (case frac_digits prec v False [] of (printed, acc, v') \<Rightarrow> (if printed then CHR ''.'' # acc else acc, v'))"

text \<open>Below a second with the unit that leaves the integer part non-zero, else in h, m and s.\<close>

definition format_small :: "nat \<Rightarrow> string" where
  "format_small u =
     (if u = 0 then ''0s''
      else let (prec, unit) = (if u < Microsecond then (0, ''ns'')
             else if u < Millisecond then (3, [CHR 0xC2, CHR 0xB5, CHR ''s''])
             else (6, ''ms''));
             (frac, v) = fmtFrac u prec
           in digits v @ frac @ unit)"

definition format_large :: "nat \<Rightarrow> string" where
  "format_large u =
     (let (frac, secs) = fmtFrac u 9;
          s = digits (secs mod 60) @ frac @ ''s'';
          mins = secs div 60
      in if mins = 0 then s
         else let m = digits (mins mod 60) @ ''m'' @ s; hours = mins div 60
              in if hours = 0 then m else digits hours @ ''h'' @ m)"

definition Duration_String :: "int \<Rightarrow> string" where
  "Duration_String d =
     (let u = nat \<bar>d\<bar>; s = (if u < Second then format_small u else format_large u)
      in if d < 0 then CHR ''-'' # s else s)"


subsection \<open>Parsing\<close>

abbreviation two63 :: nat where "two63 \<equiv> 9223372036854775808"

definition is_digit :: "char \<Rightarrow> bool" where
  "is_digit c = (48 \<le> (of_char c :: nat) \<and> (of_char c :: nat) \<le> 57)"

definition digit_val :: "char \<Rightarrow> nat" where
  "digit_val c = of_char c - 48"

text \<open>\<open>leadingInt\<close>: the digits at the start, \<open>None\<close> on overflow.\<close>

fun leadingInt :: "nat \<Rightarrow> string \<Rightarrow> (nat \<times> string) option" where
  "leadingInt x [] = Some (x, [])"
| "leadingInt x (c # s) =
     (if \<not> is_digit c then Some (x, c # s)
      else if x > two63 div 10 then None
      else let x' = x * 10 + digit_val c in if x' > two63 then None else leadingInt x' s)"

text \<open>\<open>leadingFraction\<close>: the digits after the point and the power of ten; digits beyond the range are skipped.\<close>

fun leadingFraction :: "nat \<Rightarrow> nat \<Rightarrow> bool \<Rightarrow> string \<Rightarrow> nat \<times> nat \<times> string" where
  "leadingFraction x scale overflow [] = (x, scale, [])"
| "leadingFraction x scale overflow (c # s) =
     (if \<not> is_digit c then (x, scale, c # s)
      else if overflow \<or> x > (two63 - 1) div 10 then leadingFraction x scale True s
      else let y = x * 10 + digit_val c
           in if y > two63 then leadingFraction x scale True s else leadingFraction y (scale * 10) False s)"

definition unitMap :: "string \<rightharpoonup> nat" where
  "unitMap = map_of [(''ns'', Nanosecond), (''us'', Microsecond), ([CHR 0xC2, CHR 0xB5, CHR ''s''], Microsecond),
     ([CHR 0xCE, CHR 0xBC, CHR ''s''], Microsecond), (''ms'', Millisecond), (''s'', Second), (''m'', Minute), (''h'', Hour)]"

abbreviation number_char :: "char \<Rightarrow> bool" where
  "number_char c \<equiv> c = CHR ''.'' \<or> is_digit c"

text \<open>
  One number with its unit. The library computes the fraction in floating point, which is exact for
  fractions of at most nine digits of the units that are powers of ten, the ones \<open>String\<close> prints.
\<close>

definition parse_fraction :: "string \<Rightarrow> nat \<times> nat \<times> string \<times> bool" where
  "parse_fraction s =
     (if s \<noteq> [] \<and> hd s = CHR ''.''
      then case leadingFraction 0 1 False (tl s) of (f, scale, r) \<Rightarrow> (f, scale, r, length r \<noteq> length (tl s))
      else (0, 1, s, False))"

definition parse_unit :: "nat \<Rightarrow> nat \<Rightarrow> nat \<Rightarrow> string \<Rightarrow> (nat \<times> string) option" where
  "parse_unit v f scale s =
     (let u = takeWhile (\<lambda>c. \<not> number_char c) s
      in if u = [] then None
         else case unitMap u of
           None \<Rightarrow> None
         | Some unit \<Rightarrow>
             if v > two63 div unit then None
             else let v' = (if f > 0 then v * unit + f * unit div scale else v * unit)
                  in if v' > two63 then None else Some (v', dropWhile (\<lambda>c. \<not> number_char c) s))"

definition parse_segment :: "string \<Rightarrow> (nat \<times> string) option" where
  "parse_segment s =
     (if s = [] \<or> \<not> number_char (hd s) then None
      else case leadingInt 0 s of
        None \<Rightarrow> None
      | Some (v, s1) \<Rightarrow>
          (case parse_fraction s1 of (f, scale, s2, post) \<Rightarrow>
             if length s1 = length s \<and> \<not> post then None else parse_unit v f scale s2))"

lemma leadingInt_length: "leadingInt x s = Some (v, r) \<Longrightarrow> length r \<le> length s"
  by (induction x s rule: leadingInt.induct) (auto simp: Let_def split: if_splits)

lemma leadingFraction_length: "leadingFraction x sc ov s = (f, scale, r) \<Longrightarrow> length r \<le> length s"
  by (induction x sc ov s rule: leadingFraction.induct) (auto simp: Let_def split: if_splits)

lemma length_dropWhile_less: "takeWhile P s \<noteq> [] \<Longrightarrow> length (dropWhile P s) < length s"
  by (cases s) (auto simp: length_dropWhile_le le_imp_less_Suc split: if_splits)

lemma parse_fraction_length: "parse_fraction s = (f, scale, r, post) \<Longrightarrow> length r \<le> length s"
  by (cases s) (auto simp: parse_fraction_def dest: leadingFraction_length split: if_splits prod.splits)

lemma parse_unit_shorter: "parse_unit v f scale s = Some (v', r) \<Longrightarrow> length r < length s"
  using length_dropWhile_less [of "\<lambda>c. \<not> number_char c" s]
  by (auto simp: parse_unit_def Let_def split: if_splits option.splits)

lemma parse_segment_shorter: "parse_segment s = Some (v, r) \<Longrightarrow> length r < length s"
  unfolding parse_segment_def
  by (auto dest!: leadingInt_length parse_fraction_length parse_unit_shorter split: if_splits option.splits prod.splits)

text \<open>The loop of \<open>ParseDuration\<close>; the sum is kept in 64 bits.\<close>

function parse_loop :: "string \<Rightarrow> nat \<Rightarrow> nat option" where
  "parse_loop s d =
     (if s = [] then Some d
      else case parse_segment s of
        None \<Rightarrow> None
      | Some (v, r) \<Rightarrow> (let d' = (d + v) mod 2 ^ 64 in if d' > two63 then None else parse_loop r d'))"
  by pat_completeness auto
termination
  by (relation "measure (\<lambda>(s, d). length s)") (auto dest: parse_segment_shorter)

declare parse_loop.simps [simp del]

definition ParseDuration :: "string \<Rightarrow> int option" where
  "ParseDuration s =
     (let neg = (s \<noteq> [] \<and> hd s = CHR ''-'');
          s = (if s \<noteq> [] \<and> (hd s = CHR ''-'' \<or> hd s = CHR ''+'') then tl s else s)
      in if s = ''0'' then Some 0
         else if s = [] then None
         else case parse_loop s 0 of
           None \<Rightarrow> None
         | Some d \<Rightarrow> if neg then Some (- int d) else if d > two63 - 1 then None else Some (int d))"


section \<open>Lemmas\<close>

lemma of_digit_char: "d < 10 \<Longrightarrow> (of_char (digit_char d) :: nat) = 48 + d"
  by (simp add: digit_char_def)

lemma is_digit_char [simp]: "d < 10 \<Longrightarrow> is_digit (digit_char d)" "d < 10 \<Longrightarrow> digit_val (digit_char d) = d"
  by (simp_all add: is_digit_def digit_val_def of_digit_char)

lemma digits_rec: "digits n = (if n < 10 then [digit_char n] else digits (n div 10) @ [digit_char (n mod 10)])"
  by (subst digits.simps) (simp add: digit_char_def)

lemma digits_hd [simp]: "digits n \<noteq> []" "is_digit (hd (digits n))"
proof -
  have "digits n \<noteq> [] \<and> is_digit (hd (digits n))"
  proof (induction n rule: less_induct)
    case (less n)
    show ?case
    proof (cases "n < 10")
      case True
      then show ?thesis by (simp add: digits_rec [of n])
    next
      case False
      with less [of "n div 10"] show ?thesis by (simp add: digits_rec [of n])
    qed
  qed
  then show "digits n \<noteq> []" "is_digit (hd (digits n))" by simp_all
qed

text \<open>Where a number ends.\<close>

definition ends_number :: "string \<Rightarrow> bool" where
  "ends_number rest = (rest = [] \<or> \<not> is_digit (hd rest))"

lemma leadingInt_stop: "ends_number rest \<Longrightarrow> leadingInt x rest = Some (x, rest)"
  by (cases rest) (auto simp: ends_number_def)

lemma leadingInt_prefix: "n \<le> two63 \<Longrightarrow> leadingInt 0 (digits n @ rest) = leadingInt n rest"
proof (induction n arbitrary: rest rule: less_induct)
  case (less n)
  show ?case
  proof (cases "n < 10")
    case True
    then show ?thesis by (simp add: digits_rec [of n])
  next
    case False
    have "leadingInt 0 (digits n @ rest) = leadingInt 0 (digits (n div 10) @ digit_char (n mod 10) # rest)"
      using False by (simp add: digits_rec [of n])
    also have "\<dots> = leadingInt (n div 10) (digit_char (n mod 10) # rest)"
      using False less.prems by (intro less.IH) auto
    also have "\<dots> = leadingInt n rest"
      using less.prems by (simp add: Let_def div_le_mono leD)
    finally show ?thesis .
  qed
qed

lemma leadingInt_digits: "n \<le> two63 \<Longrightarrow> ends_number rest \<Longrightarrow> leadingInt 0 (digits n @ rest) = Some (n, rest)"
  by (simp add: leadingInt_prefix leadingInt_stop)

subsection \<open>Fractions\<close>

fun pad_digits :: "nat \<Rightarrow> nat \<Rightarrow> string" where
  "pad_digits 0 v = []"
| "pad_digits (Suc k) v = pad_digits k (v div 10) @ [digit_char (v mod 10)]"

lemma length_pad_digits [simp]: "length (pad_digits k v) = k"
  by (induction k arbitrary: v) simp_all

lemma div_power_Suc: "(v :: nat) div 10 div 10 ^ p = v div 10 ^ Suc p"
  by (simp add: div_mult2_eq)

lemma frac_digits_printed: "frac_digits p v True acc = (True, pad_digits p v @ acc, v div 10 ^ p)"
  by (induction p arbitrary: v acc) (simp_all add: div_mult2_eq)

lemma frac_digits_trimmed:
  "\<exists>k \<le> p. frac_digits p v False [] = (0 < k, pad_digits k (v div 10 ^ (p - k)), v div 10 ^ p) \<and>
     v mod 10 ^ (p - k) = 0 \<and> (0 < k \<longrightarrow> v mod 10 ^ p \<noteq> 0)"
proof (induction p arbitrary: v)
  case (Suc p)
  show ?case
  proof (cases "v mod 10 = 0")
    case True
    obtain k where k: "k \<le> p" "frac_digits p (v div 10) False [] = (0 < k, pad_digits k (v div 10 div 10 ^ (p - k)), v div 10 div 10 ^ p)"
      "v div 10 mod 10 ^ (p - k) = 0" "0 < k \<longrightarrow> v div 10 mod 10 ^ p \<noteq> 0"
      using Suc.IH [of "v div 10"] by (elim exE conjE) (rule that)
    have split: "v mod 10 ^ Suc q = 10 * (v div 10 mod 10 ^ q)" for q
      using mod_mult2_eq [of v 10 "10 ^ q"] True by simp
    have sub: "Suc p - k = Suc (p - k)" using k(1) by simp
    have "frac_digits (Suc p) v False [] = (0 < k, pad_digits k (v div 10 ^ (Suc p - k)), v div 10 ^ Suc p)"
      using True k(2) unfolding sub by (simp add: div_mult2_eq)
    moreover have "v mod 10 ^ (Suc p - k) = 0" unfolding sub split using k(3) by simp
    moreover have "0 < k \<longrightarrow> v mod 10 ^ Suc p \<noteq> 0" unfolding split using k(4) by simp
    ultimately show ?thesis using k(1) by (intro exI [of _ k]) simp
  next
    case False
    then have "frac_digits (Suc p) v False [] = (True, pad_digits (Suc p) v, v div 10 ^ Suc p)"
      by (simp add: frac_digits_printed div_mult2_eq)
    moreover have "v mod 10 ^ Suc p \<noteq> 0" using False mod_mult2_eq [of v 10 "10 ^ p"] by simp
    ultimately show ?thesis by (intro exI [of _ "Suc p"]) simp
  qed
qed simp

lemma leadingFraction_stop: "ends_number rest \<Longrightarrow> leadingFraction x scale ov rest = (x, scale, rest)"
  by (cases rest) (auto simp: ends_number_def)

lemma leadingFraction_prefix:
  "k \<le> 9 \<Longrightarrow> leadingFraction 0 1 False (pad_digits k v @ rest) = leadingFraction (v mod 10 ^ k) (10 ^ k) False rest"
proof (induction k arbitrary: v rest)
  case (Suc k)
  let ?x = "v div 10 mod 10 ^ k"
  have "?x < 10 ^ k" by simp
  also have "(10 :: nat) ^ k \<le> 10 ^ 9" using Suc.prems by (intro power_increasing) auto
  finally have small: "?x < 1000000000" by simp
  have y: "?x * 10 + v mod 10 = v mod 10 ^ Suc k" using mod_mult2_eq [of v 10 "10 ^ k"] by simp
  have "leadingFraction 0 1 False (pad_digits (Suc k) v @ rest) =
      leadingFraction ?x (10 ^ k) False (digit_char (v mod 10) # rest)"
    using Suc.IH [of "v div 10" "digit_char (v mod 10) # rest"] Suc.prems by simp
  also have "\<dots> = leadingFraction (?x * 10 + v mod 10) (10 ^ k * 10) False rest"
  proof -
    have "\<not> ?x > (two63 - 1) div 10" using small by simp
    moreover have "v mod 10 < 10" by simp
    then have "\<not> ?x * 10 + v mod 10 > two63" using small by linarith
    ultimately show ?thesis by (simp only: leadingFraction.simps is_digit_char mod_less_divisor Let_def if_False simp_thms
        zero_less_numeral)
  qed
  finally show ?case by (simp only: y power_Suc2)
qed simp

text \<open>A printed fraction is read as the remainder it was printed from.\<close>

lemma parse_fmtFrac:
  assumes "fmtFrac v p = (frac, q)" and "p \<le> 9" and "ends_number rest" and "rest = [] \<or> hd rest \<noteq> CHR ''.''"
  shows "q = v div 10 ^ p \<and> ends_number (frac @ rest) \<and>
    (\<exists>f scale post. parse_fraction (frac @ rest) = (f, scale, rest, post) \<and>
       (if 0 < f then f * 10 ^ p div scale else 0) = v mod 10 ^ p)"
proof -
  obtain k where k: "k \<le> p" "frac_digits p v False [] = (0 < k, pad_digits k (v div 10 ^ (p - k)), v div 10 ^ p)"
    "v mod 10 ^ (p - k) = 0" "0 < k \<longrightarrow> v mod 10 ^ p \<noteq> 0"
    using frac_digits_trimmed [of p v] by (elim exE conjE) (rule that)
  show ?thesis
  proof (cases "k = 0")
    case True
    with k assms show ?thesis
      by (cases rest) (auto simp: fmtFrac_def parse_fraction_def)
  next
    case False
    let ?w = "v div 10 ^ (p - k)"
    have frac: "frac = CHR ''.'' # pad_digits k ?w" and q: "q = v div 10 ^ p"
      using assms(1) k(2) False by (simp_all add: fmtFrac_def)
    have dot: "\<not> is_digit CHR ''.''" by (simp add: is_digit_def)
    have lf: "leadingFraction 0 1 False (pad_digits k ?w @ rest) = (?w mod 10 ^ k, 10 ^ k, rest)"
      using leadingFraction_prefix [of k ?w rest] leadingFraction_stop [OF assms(3)] k(1) assms(2) by simp
    have pow: "(10 :: nat) ^ p = 10 ^ (p - k) * 10 ^ k" using k(1) by (simp flip: power_add)
    have rem: "v mod 10 ^ p = 10 ^ (p - k) * (?w mod 10 ^ k)" using k(3) by (simp add: pow mod_mult2_eq)
    have "?w mod 10 ^ k * 10 ^ p div 10 ^ k = ?w mod 10 ^ k * 10 ^ (p - k)"
      by (simp add: pow mult.assoc [symmetric])
    then have "?w mod 10 ^ k * 10 ^ p div 10 ^ k = v mod 10 ^ p" by (simp only: rem mult.commute)
    moreover have "0 < ?w mod 10 ^ k" using rem k(4) False by (metis gr0I mult_0_right)
    moreover have "parse_fraction (frac @ rest) = (?w mod 10 ^ k, 10 ^ k, rest, True)"
      using False lf by (simp add: parse_fraction_def frac)
    ultimately show ?thesis using q dot by (auto simp: frac ends_number_def)
  qed
qed

subsection \<open>Segments\<close>

lemma segment_unit:
  assumes "\<forall>c \<in> set unit. \<not> number_char c" and "rest = [] \<or> number_char (hd rest)"
  shows "takeWhile (\<lambda>c. \<not> number_char c) (unit @ rest) = unit \<and> dropWhile (\<lambda>c. \<not> number_char c) (unit @ rest) = rest"
proof -
  have split: "takeWhile P (unit @ rest) = unit \<and> dropWhile P (unit @ rest) = rest"
    if "\<forall>c \<in> set unit. P c" and "rest = [] \<or> \<not> P (hd rest)" for P
    using that by (cases rest) (simp_all add: takeWhile_append2 dropWhile_append2)
  show ?thesis by (rule split) (use assms in simp_all)
qed

lemma parse_segment_print:
  assumes "fmtFrac v p = (frac, q0)" and "p \<le> 9" and "unitMap unit = Some (10 ^ p)" and "unit \<noteq> []"
    and "\<forall>c \<in> set unit. \<not> number_char c" and "rest = [] \<or> number_char (hd rest)" and "q * 10 ^ p + v mod 10 ^ p \<le> two63"
  shows "parse_segment (digits q @ frac @ unit @ rest) = Some (q * 10 ^ p + v mod 10 ^ p, rest)"
proof -
  let ?s = "digits q @ frac @ unit @ rest"
  have ends: "ends_number (unit @ rest)" and nodot: "unit @ rest = [] \<or> hd (unit @ rest) \<noteq> CHR ''.''"
    using assms(4,5) by (cases unit; auto simp: ends_number_def)+
  from parse_fmtFrac [OF assms(1,2) ends nodot] obtain f scale post where
    frac: "ends_number (frac @ unit @ rest)" "parse_fraction (frac @ unit @ rest) = (f, scale, unit @ rest, post)"
    "(if 0 < f then f * 10 ^ p div scale else 0) = v mod 10 ^ p" by auto
  have "1 \<le> (10 :: nat) ^ p" by simp
  then have "q \<le> q * 10 ^ p" by simp
  then have q: "q \<le> two63" using assms(7) by linarith
  have take: "takeWhile (\<lambda>c. \<not> number_char c) (unit @ rest) = unit"
    "dropWhile (\<lambda>c. \<not> number_char c) (unit @ rest) = rest"
    using segment_unit [OF assms(5,6)] by simp_all
  have "q \<le> two63 div 10 ^ p" using assms(7) by (simp add: less_eq_div_iff_mult_less_eq)
  moreover have sum: "(if 0 < f then q * 10 ^ p + f * 10 ^ p div scale else q * 10 ^ p) = q * 10 ^ p + v mod 10 ^ p"
    using frac(3) by (simp split: if_splits)
  ultimately have unit: "parse_unit q f scale (unit @ rest) = Some (q * 10 ^ p + v mod 10 ^ p, rest)"
    using assms(3,4,7) unfolding parse_unit_def take Let_def by (simp only: sum option.case if_False) simp
  have "hd ?s = hd (digits q)" by simp
  then show ?thesis
    using leadingInt_digits [OF q frac(1)] frac(2) unit by (simp add: parse_segment_def)
qed


lemma parse_segment_whole:
  assumes "unitMap unit = Some n" and "unit \<noteq> []" and "\<forall>c \<in> set unit. \<not> number_char c"
    and "rest = [] \<or> number_char (hd rest)" and "q * n \<le> two63" and "0 < n"
  shows "parse_segment (digits q @ unit @ rest) = Some (q * n, rest)"
proof -
  have ends: "ends_number (unit @ rest)" and nodot: "hd (unit @ rest) \<noteq> CHR ''.''"
    using assms(2,3) by (cases unit; auto simp: ends_number_def)+
  have "q \<le> q * n" using assms(6) by simp
  then have q: "q \<le> two63" using assms(5) by linarith
  have "q \<le> two63 div n" using assms(5,6) by (simp add: less_eq_div_iff_mult_less_eq)
  then have "parse_unit q 0 1 (unit @ rest) = Some (q * n, rest)"
    using assms(1,2,5) segment_unit [OF assms(3,4)] by (simp add: parse_unit_def)
  moreover have "parse_fraction (unit @ rest) = (0, 1, unit @ rest, False)" using nodot by (simp add: parse_fraction_def)
  ultimately show ?thesis using leadingInt_digits [OF q ends] by (simp add: parse_segment_def)
qed

lemma parse_loop_Nil [simp]: "parse_loop [] d = Some d"
  by (simp add: parse_loop.simps)

lemma parse_loop_step:
  assumes "parse_segment s = Some (v, r)" and "s \<noteq> []" and "d + v \<le> two63"
  shows "parse_loop s d = parse_loop r (d + v)"
proof -
  have "(d + v) mod 2 ^ 64 = d + v" using assms(3) by (simp add: mod_less)
  then show ?thesis using assms by (simp add: parse_loop.simps [of s])
qed

lemma units [simp]:
  "unitMap ''ns'' = Some 1" "unitMap [CHR 0xC2, CHR 0xB5, CHR ''s''] = Some 1000" "unitMap ''ms'' = Some 1000000"
  "unitMap ''s'' = Some 1000000000" "unitMap ''m'' = Some 60000000000" "unitMap ''h'' = Some 3600000000000"
  by (simp_all add: unitMap_def Nanosecond_def Microsecond_def Millisecond_def Second_def Minute_def Hour_def)

lemma no_number_chars [simp]:
  "\<not> is_digit CHR ''n''" "\<not> is_digit CHR ''s''" "\<not> is_digit CHR ''m''" "\<not> is_digit CHR ''h''"
  "\<not> is_digit CHR 0xC2" "\<not> is_digit CHR 0xB5" "\<not> is_digit CHR ''-''" "\<not> is_digit CHR ''+''"
  by (simp_all add: is_digit_def)

lemma print_segment:
  assumes "fmtFrac u p = (frac, q)" and "p \<le> 9" and "unitMap unit = Some (10 ^ p)" and "unit \<noteq> []"
    and "\<forall>c \<in> set unit. \<not> number_char c" and "u \<le> two63"
  shows "parse_loop (digits q @ frac @ unit) 0 = Some u"
proof -
  have q: "q = u div 10 ^ p" using frac_digits_trimmed [of p u] assms(1) by (auto simp: fmtFrac_def)
  then have u: "q * 10 ^ p + u mod 10 ^ p = u" by (simp add: div_mult_mod_eq)
  have "parse_segment (digits q @ frac @ unit @ []) = Some (u, [])"
    using parse_segment_print [OF assms(1-5), of "[]" q] assms(6) by (simp only: u simp_thms)
  with parse_loop_step [of "digits q @ frac @ unit" u "[]" 0] assms(6) show ?thesis by simp
qed

lemma parse_format_small:
  assumes "0 < u" and "u < 1000000000"
  shows "parse_loop (format_small u) 0 = Some u"
proof -
  consider "u < 1000" | "1000 \<le> u" "u < 1000000" | "1000000 \<le> u" by linarith
  then show ?thesis
  proof cases
    case 1
    obtain frac q where f: "fmtFrac u 0 = (frac, q)" by fastforce
    have "format_small u = digits q @ frac @ ''ns''"
      using 1 assms(1) f by (simp add: format_small_def Microsecond_def)
    with print_segment [OF f, of "''ns''"] assms(2) show ?thesis by simp
  next
    case 2
    obtain frac q where f: "fmtFrac u 3 = (frac, q)" by fastforce
    have "format_small u = digits q @ frac @ [CHR 0xC2, CHR 0xB5, CHR ''s'']"
      using 2 f by (simp add: format_small_def Microsecond_def Millisecond_def)
    with print_segment [OF f, of "[CHR 0xC2, CHR 0xB5, CHR ''s'']"] assms(2) show ?thesis by simp
  next
    case 3
    obtain frac q where f: "fmtFrac u 6 = (frac, q)" by fastforce
    have "format_small u = digits q @ frac @ ''ms''"
      using 3 f by (simp add: format_small_def Microsecond_def Millisecond_def)
    with print_segment [OF f, of "''ms''"] assms(2) show ?thesis by simp
  qed
qed

lemma parse_format_large:
  assumes "u \<le> two63"
  shows "parse_loop (format_large u) 0 = Some u"
proof -
  obtain frac secs where f: "fmtFrac u 9 = (frac, secs)" by fastforce
  have secs: "secs = u div 1000000000" using frac_digits_trimmed [of 9 u] f by (auto simp: fmtFrac_def)
  let ?mins = "secs div 60" and ?hours = "secs div 60 div 60" and ?rem = "u mod 1000000000"
  let ?s = "digits (secs mod 60) @ frac @ ''s''" and ?vs = "secs mod 60 * 1000000000 + ?rem"
  let ?m = "digits (?mins mod 60) @ ''m'' @ ?s" and ?vm = "?mins mod 60 * 60000000000"
  have total: "?hours * 3600000000000 + ?vm + ?vs = u"
  proof -
    have "u = secs * 1000000000 + ?rem" unfolding secs by (simp add: div_mult_mod_eq)
    moreover have "secs = ?mins * 60 + secs mod 60" "?mins = ?hours * 60 + ?mins mod 60" by (simp_all add: div_mult_mod_eq)
    ultimately show ?thesis by linarith
  qed
  have "parse_segment (?s @ []) = Some (?vs, [])"
    using parse_segment_print [OF f, of "''s''" "[]" "secs mod 60"] total assms by simp
  then have s: "parse_loop ?s d = Some (d + ?vs)" if "d + ?vs \<le> two63" for d
    using parse_loop_step [of ?s ?vs "[]" d] that by simp
  have "hd ?s = hd (digits (secs mod 60))" by simp
  then have hd_s: "number_char (hd ?s)" by simp
  have "parse_segment ?m = Some (?vm, ?s)"
    using parse_segment_whole [of "''m''" 60000000000 ?s "?mins mod 60"] hd_s total assms by simp
  then have m: "parse_loop ?m d = Some (d + ?vm + ?vs)" if "d + ?vm + ?vs \<le> two63" for d
    using parse_loop_step [of ?m ?vm ?s d] s [of "d + ?vm"] that by simp
  have "hd ?m = hd (digits (?mins mod 60))" by simp
  then have hd_m: "number_char (hd ?m)" by simp
  have h: "parse_segment (digits ?hours @ ''h'' @ ?m) = Some (?hours * 3600000000000, ?m)"
    using parse_segment_whole [of "''h''" 3600000000000 ?m ?hours] hd_m total assms by simp
  show ?thesis
  proof (cases "?mins = 0")
    case True
    then have "format_large u = ?s" using f by (simp add: format_large_def)
    with s [of 0] total assms True show ?thesis by simp
  next
    case mins: False
    show ?thesis
    proof (cases "?hours = 0")
      case True
      with mins have "format_large u = ?m" using f by (simp add: format_large_def)
      with m [of 0] total assms True show ?thesis by simp
    next
      case False
      with mins have "format_large u = digits ?hours @ ''h'' @ ?m" using f by (simp add: format_large_def Let_def)
      with parse_loop_step [OF h, of 0] m [of "?hours * 3600000000000"] total assms show ?thesis by simp
    qed
  qed
qed

text \<open>Every 64-bit duration is read back as it was printed.\<close>

lemma ParseDuration_String:
  assumes "- (2 ^ 63) \<le> d" and "d < 2 ^ 63"
  shows "ParseDuration (Duration_String d) = Some d"
proof (cases "d = 0")
  case True
  have "of_char (CHR ''0'') = (48 :: nat)" by simp
  then have "char_of (48 :: nat) = CHR ''0''" by (metis char_of_char)
  then have "digits 0 = ''0''" by (simp add: digits_rec [of 0] digit_char_def)
  have "parse_segment (digits 0 @ ''s'' @ []) = Some (0 * 1000000000, [])"
    by (rule parse_segment_whole) simp_all
  then have "parse_loop ''0s'' 0 = Some 0"
    using parse_loop_step [of "''0s''" 0 "[]" 0] \<open>digits 0 = ''0''\<close> by simp
  then show ?thesis by (simp add: True Duration_String_def format_small_def Second_def ParseDuration_def)
next
  case False
  let ?u = "nat \<bar>d\<bar>" and ?s = "if nat \<bar>d\<bar> < Second then format_small (nat \<bar>d\<bar>) else format_large (nat \<bar>d\<bar>)"
  have u: "0 < ?u" "?u \<le> two63" using assms False by auto
  have loop: "parse_loop ?s 0 = Some ?u"
    using parse_format_small [OF u(1)] parse_format_large [OF u(2)] by (simp add: Second_def)
  then have nonempty: "?s \<noteq> []" using u(1) by (metis option.inject parse_loop_Nil nat_less_le)
  moreover have first: "number_char (hd ?s)"
  proof (rule ccontr)
    assume "\<not> number_char (hd ?s)"
    then have "parse_segment ?s = None" using nonempty by (simp only: parse_segment_def simp_thms if_True)
    then have "parse_loop ?s 0 = None" using nonempty by (subst parse_loop.simps) simp
    with loop show False by simp
  qed
  then have "hd ?s \<noteq> CHR ''-''" "hd ?s \<noteq> CHR ''+''" by auto
  moreover have "?s \<noteq> ''0''"
  proof
    assume "?s = ''0''"
    moreover have "parse_segment ''0'' = None"
      by (simp add: parse_segment_def is_digit_def parse_fraction_def parse_unit_def digit_val_def)
    then have "parse_loop ''0'' 0 = None" by (subst parse_loop.simps) simp
    ultimately show False using loop by (simp split: if_splits)
  qed
  ultimately show ?thesis
  proof (cases "d < 0")
    case True
    then have "Duration_String d = CHR ''-'' # ?s" by (simp add: Duration_String_def Let_def)
    then show ?thesis
      using loop nonempty \<open>?s \<noteq> ''0''\<close> True by (simp only: ParseDuration_def Let_def list.sel simp_thms list.distinct if_True if_False option.case) simp
  next
    case neg: False
    then have "Duration_String d = ?s" by (simp add: Duration_String_def Let_def)
    moreover have "\<not> ?u > two63 - 1" using assms neg by simp
    ultimately show ?thesis
      using loop nonempty \<open>?s \<noteq> ''0''\<close> \<open>hd ?s \<noteq> CHR ''-''\<close> \<open>hd ?s \<noteq> CHR ''+''\<close> neg
      by (simp only: ParseDuration_def Let_def simp_thms if_True if_False option.case) simp
  qed
qed

end
