(* ===== verification/Operator.thy ===== *)
theory Operator
  imports API Duration
begin

text \<open>
  \<open>pkg/controllers/operator\<close>: the controller that runs one api-aggregator workload, a Deployment and
  a Service, for every AggregatedAPI object, and that holds the object back with a finalizer until the
  workload is deleted.
\<close>

section \<open>Definitions\<close>

subsection \<open>Child objects\<close>

record Container =
  cn_Name :: string
  cn_Image :: string
  cn_Args :: "string list"
  cn_Ports :: "(string \<times> int) list"

record Deployment =
  dp_APIVersion :: string
  dp_Kind :: string
  dp_Name :: string
  dp_Namespace :: string
  dp_Labels :: string_map
  dp_MatchLabels :: string_map
  dp_PodLabels :: string_map
  dp_ServiceAccountName :: string
  dp_Containers :: "Container list"

record ServicePort =
  spt_Name :: string
  spt_Port :: int
  spt_TargetPort :: string

record Service =
  svc_APIVersion :: string
  svc_Kind :: string
  svc_Name :: string
  svc_Namespace :: string
  svc_Labels :: string_map
  svc_Selector :: string_map
  svc_Ports :: "ServicePort list"

text \<open>The values of \<open>client.Object\<close> that are applied and deleted.\<close>

datatype child_object =
    Deployment_object Deployment
  | Service_object Service

text \<open>
  What is called of the Kubernetes libraries: \<open>GroupVersion.String\<close> and the finalizer helpers of
  \<open>controllerutil\<close>. \<open>AddFinalizer\<close> returns whether it changed the object.
\<close>

record operator_libs =
  ol_gvString :: "group_version \<Rightarrow> string"
  ol_AddFinalizer :: "AggregatedAPI \<Rightarrow> string \<Rightarrow> bool \<times> AggregatedAPI"
  ol_ContainsFinalizer :: "AggregatedAPI \<Rightarrow> string \<Rightarrow> bool"
  ol_RemoveFinalizer :: "AggregatedAPI \<Rightarrow> string \<Rightarrow> AggregatedAPI"

subsection \<open>The controller\<close>

definition Operator_ControllerName :: string where
  "Operator_ControllerName = ''operator-aggregatedapi''"

definition FieldOwner :: string where
  "FieldOwner = ''aggregatedapi-operator''"

definition Finalizer :: string where
  "Finalizer = ''aggregation.ntnn.dev/child-workloads''"

type_synonym object_key = "string \<times> string"

text \<open>
  \<open>Options\<close>; \<open>None\<close> is nil. An update returns the object as the call leaves it: the client writes the
  server's answer into its argument.
\<close>

record 'w operator_options =
  oo_Namespace :: string
  oo_ServiceAccount :: string
  oo_GetAggregatedAPI :: "(object_key \<Rightarrow> ('w, AggregatedAPI) io) option"
  oo_Apply :: "(child_object \<Rightarrow> ('w, unit) io) option"
  oo_Update :: "(AggregatedAPI \<Rightarrow> ('w, AggregatedAPI) io) option"
  oo_Delete :: "(child_object \<Rightarrow> ('w, unit) io) option"

definition operator_defaults :: "'w operator_options \<Rightarrow> 'w operator_options" where
  "operator_defaults opts =
     (let opts = (if oo_Namespace opts = '''' then opts\<lparr>oo_Namespace := ''aggregated-apiserver-operator''\<rparr> else opts)
      in if oo_ServiceAccount opts = '''' then opts\<lparr>oo_ServiceAccount := ''api-aggregator''\<rparr> else opts)"

definition operator_validate :: "'w operator_options \<Rightarrow> 'w operator_options result" where
  "operator_validate opts = Inr (operator_defaults opts)"

definition operator_NewController :: "'w operator_options \<Rightarrow> 'w operator_options result" where
  "operator_NewController opts =
     (case operator_validate opts of
        Inl err \<Rightarrow> Inl (Wrapf ''invalid operator aggregatedapi controller options: %w'' [] err)
      | Inr opts \<Rightarrow> Inr opts)"

text \<open>
  The manager: its client (\<open>'u\<close> is the unstructured form of an object), the conversion to it, and
  whether the controller could be built. \<open>Apply\<close> gets the field owner and whether ownership is forced.
\<close>

record ('w, 'u) manager =
  mg_Get :: "object_key \<Rightarrow> ('w, AggregatedAPI) io"
  mg_ToUnstructured :: "child_object \<Rightarrow> 'u result"
  mg_Apply :: "'u \<Rightarrow> string \<Rightarrow> bool \<Rightarrow> ('w, unit) io"
  mg_Update :: "AggregatedAPI \<Rightarrow> ('w, AggregatedAPI) io"
  mg_Delete :: "child_object \<Rightarrow> ('w, unit) io"
  mg_Complete :: "string \<Rightarrow> go_error option"

text \<open>\<open>Controller\<close> once \<open>SetupWithManager\<close> has filled in the client functions.\<close>

record 'w operator =
  op_Namespace :: string
  op_ServiceAccount :: string
  op_GetAggregatedAPI :: "object_key \<Rightarrow> ('w, AggregatedAPI) io"
  op_Apply :: "child_object \<Rightarrow> ('w, unit) io"
  op_Update :: "AggregatedAPI \<Rightarrow> ('w, AggregatedAPI) io"
  op_Delete :: "child_object \<Rightarrow> ('w, unit) io"

definition child_type :: "child_object \<Rightarrow> string" where
  "child_type obj = (case obj of Deployment_object d \<Rightarrow> ''*v1.Deployment'' | Service_object s \<Rightarrow> ''*v1.Service'')"

definition apply_with :: "('w, 'u) manager \<Rightarrow> child_object \<Rightarrow> ('w, unit) io" where
  "apply_with mgr obj w =
     (case mg_ToUnstructured mgr obj of
        Inl err \<Rightarrow> (Inl (Wrapf ''converting %T to unstructured: %w'' [child_type obj] err), w)
      | Inr content \<Rightarrow> mg_Apply mgr content FieldOwner True w)"

definition SetupWithManager :: "('w, 'u) manager \<Rightarrow> 'w operator_options \<Rightarrow> go_error option \<times> 'w operator" where
  "SetupWithManager mgr opts =
     (mg_Complete mgr Operator_ControllerName,
      \<lparr>op_Namespace = oo_Namespace opts, op_ServiceAccount = oo_ServiceAccount opts,
       op_GetAggregatedAPI = (case oo_GetAggregatedAPI opts of None \<Rightarrow> mg_Get mgr | Some f \<Rightarrow> f),
       op_Apply = (case oo_Apply opts of None \<Rightarrow> apply_with mgr | Some f \<Rightarrow> f),
       op_Update = (case oo_Update opts of None \<Rightarrow> mg_Update mgr | Some f \<Rightarrow> f),
       op_Delete = (case oo_Delete opts of None \<Rightarrow> mg_Delete mgr | Some f \<Rightarrow> f)\<rparr>)"

text \<open>The map function of the watches on children: which object a child belongs to.\<close>

definition toAggregatedAPI :: "string_map \<Rightarrow> object_key list" where
  "toAggregatedAPI labels =
     (let instance = map_get (Some labels) ''app.kubernetes.io/instance''
      in case strings_Cut instance CHR ''.'' of (namespace, name, found) \<Rightarrow>
           if \<not> found then [] else [(namespace, name)])"

text \<open>\<open>config.Setup\<close>\<close>

definition operator_Setup :: "('w, 'u) manager \<Rightarrow> 'w operator_options \<Rightarrow> 'w operator result" where
  "operator_Setup mgr opts =
     (case operator_NewController opts of
        Inl err \<Rightarrow> Inl (Wrapf ''building aggregatedapi controller: %w'' [] err)
      | Inr opts \<Rightarrow>
          (case SetupWithManager mgr opts of
             (Some err, c) \<Rightarrow> Inl (Wrapf ''setting up aggregatedapi controller: %w'' [] err)
           | (None, c) \<Rightarrow> Inr c))"

subsection \<open>The reconciler\<close>

definition childName :: "AggregatedAPI \<Rightarrow> string" where
  "childName aa = ''aggregator-'' @ aa_namespace aa @ ''-'' @ aa_name aa"

definition labels :: "AggregatedAPI \<Rightarrow> string_map" where
  "labels aa =
     [''app.kubernetes.io/name'' \<mapsto> ''api-aggregator'',
      ''app.kubernetes.io/instance'' \<mapsto> aa_namespace aa @ ''.'' @ aa_name aa,
      ''app.kubernetes.io/managed-by'' \<mapsto> FieldOwner]"

definition reconciler_image :: "AggregatedAPI \<Rightarrow> string" where
  "reconciler_image aa = (if sp_Image (aa_Spec aa) \<noteq> '''' then sp_Image (aa_Spec aa) else DefaultImage)"

definition childArgs :: "'w operator \<Rightarrow> AggregatedAPI \<Rightarrow> string list" where
  "childArgs c aa =
     [''--aggregated-api'', aa_name aa, ''--namespace'', aa_namespace aa,
      ''--url'', sprintf ''https://%s.%s.svc:443'' [childName aa, op_Namespace c]] @
     (case sp_ResyncInterval (aa_Spec aa) of
        Some interval \<Rightarrow> [''--resync-interval'', Duration_String interval]
      | None \<Rightarrow> [])"

definition deployment :: "operator_libs \<Rightarrow> 'w operator \<Rightarrow> AggregatedAPI \<Rightarrow> Deployment" where
  "deployment U c aa =
     \<lparr>dp_APIVersion = ol_gvString U \<lparr>gv_group = ''apps'', gv_version = ''v1''\<rparr>, dp_Kind = ''Deployment'',
      dp_Name = childName aa, dp_Namespace = op_Namespace c, dp_Labels = labels aa,
      dp_MatchLabels = labels aa, dp_PodLabels = labels aa, dp_ServiceAccountName = op_ServiceAccount c,
      dp_Containers = [\<lparr>cn_Name = ''api-aggregator'', cn_Image = reconciler_image aa, cn_Args = childArgs c aa,
         cn_Ports = [(''https'', 6443)]\<rparr>]\<rparr>"

definition service :: "operator_libs \<Rightarrow> 'w operator \<Rightarrow> AggregatedAPI \<Rightarrow> Service" where
  "service U c aa =
     \<lparr>svc_APIVersion = ol_gvString U \<lparr>gv_group = '''', gv_version = ''v1''\<rparr>, svc_Kind = ''Service'',
      svc_Name = childName aa, svc_Namespace = op_Namespace c, svc_Labels = labels aa,
      svc_Selector = labels aa,
      svc_Ports = [\<lparr>spt_Name = ''https'', spt_Port = 443, spt_TargetPort = ''https''\<rparr>]\<rparr>"

text \<open>\<open>if err := delete(obj); err != nil && !apierrors.IsNotFound(err) { return fmt.Errorf(f, err) }\<close>\<close>

definition delete_child :: "'w operator \<Rightarrow> string \<Rightarrow> child_object \<Rightarrow> ('w, unit) io" where
  "delete_child c f obj w =
     (case op_Delete c obj w of
        (Inl err, w') \<Rightarrow> (if \<not> IsNotFound err then (Inl (Wrapf f [] err), w') else (Inr (), w'))
      | (Inr _, w') \<Rightarrow> (Inr (), w'))"

definition finalize :: "operator_libs \<Rightarrow> 'w operator \<Rightarrow> AggregatedAPI \<Rightarrow> ('w, unit) io" where
  "finalize U c aa =
     (if \<not> ol_ContainsFinalizer U aa Finalizer then ret ()
      else bind_io (delete_child c ''deleting Deployment: %w'' (Deployment_object (deployment U c aa))) (\<lambda>_.
           bind_io (delete_child c ''deleting Service: %w'' (Service_object (service U c aa))) (\<lambda>_.
           bind_io (map_err (Wrapf ''removing finalizer: %w'' [])
                     (op_Update c (ol_RemoveFinalizer U aa Finalizer))) (\<lambda>_. ret ()))))"

definition apply_children :: "operator_libs \<Rightarrow> 'w operator \<Rightarrow> AggregatedAPI \<Rightarrow> ('w, unit) io" where
  "apply_children U c aa =
     bind_io (map_err (Wrapf ''applying Deployment: %w'' []) (op_Apply c (Deployment_object (deployment U c aa)))) (\<lambda>_.
     bind_io (map_err (Wrapf ''applying Service: %w'' []) (op_Apply c (Service_object (service U c aa)))) (\<lambda>_. ret ()))"

text \<open>\<open>reconcile\<close>, which \<open>Controller.Reconcile\<close> calls with its request.\<close>

definition operator_Reconcile :: "operator_libs \<Rightarrow> 'w operator \<Rightarrow> object_key \<Rightarrow> ('w, unit) io" where
  "operator_Reconcile U c req w =
     (case op_GetAggregatedAPI c req w of
        (Inl err, w') \<Rightarrow>
          (if IsNotFound err then (Inr (), w') else (Inl (Wrapf ''getting AggregatedAPI: %w'' [] err), w'))
      | (Inr aa, w') \<Rightarrow>
          if aa_deletionTimestamp aa then finalize U c aa w'
          else case ol_AddFinalizer U aa Finalizer of
            (False, aa') \<Rightarrow> apply_children U c aa' w'
          | (True, aa') \<Rightarrow>
              bind_io (map_err (Wrapf ''adding finalizer: %w'' []) (op_Update c aa')) (apply_children U c) w')"

section \<open>Specification\<close>

text \<open>What \<open>controllerutil\<close> documents of the finalizer helpers.\<close>

definition finalizer_laws :: "operator_libs \<Rightarrow> bool" where
  "finalizer_laws U \<longleftrightarrow>
     (\<forall>aa f. ol_ContainsFinalizer U aa f = (f \<in> set (aa_finalizers aa)) \<and>
        fst (ol_AddFinalizer U aa f) = (f \<notin> set (aa_finalizers aa)) \<and>
        (\<exists>fs. snd (ol_AddFinalizer U aa f) = aa\<lparr>aa_finalizers := fs\<rparr> \<and> set fs = insert f (set (aa_finalizers aa))) \<and>
        (\<exists>fs. ol_RemoveFinalizer U aa f = aa\<lparr>aa_finalizers := fs\<rparr> \<and> set fs = set (aa_finalizers aa) - {f}))"

text \<open>Children by kind and name, in the operator's namespace.\<close>

datatype child_kind = DeploymentChild | ServiceChild

definition child_id :: "child_object \<Rightarrow> child_kind \<times> string" where
  "child_id obj = (case obj of Deployment_object d \<Rightarrow> (DeploymentChild, dp_Name d)
     | Service_object s \<Rightarrow> (ServiceChild, svc_Name s))"

definition key_of :: "AggregatedAPI \<Rightarrow> object_key" where
  "key_of aa = (aa_namespace aa, aa_name aa)"

definition child_name :: "object_key \<Rightarrow> string" where
  "child_name key = ''aggregator-'' @ fst key @ ''-'' @ snd key"

text \<open>
  What the operator relies on of the API server it talks to. \<open>fins w key\<close> are the finalizers of the
  stored object, \<open>kids w\<close> the children that exist. A read changes nothing, and an object that is read
  without a deletion timestamp and with the finalizer still has it. A successful update stores the
  finalizers of its argument, a failed one may or may not. An apply creates at most its argument, and
  does if it succeeds. A delete removes at most its argument, which is gone if it succeeds or reports
  not-found.
\<close>

definition operator_laws ::
  "'w operator \<Rightarrow> ('w \<Rightarrow> object_key \<Rightarrow> string set) \<Rightarrow> ('w \<Rightarrow> (child_kind \<times> string) set) \<Rightarrow> bool" where
  "operator_laws c fins kids \<longleftrightarrow>
     (\<forall>key w r w'. op_GetAggregatedAPI c key w = (r, w') \<longrightarrow> fins w' = fins w \<and> kids w' = kids w \<and>
        (\<forall>aa. r = Inr aa \<longrightarrow> key_of aa = key \<and>
           (\<not> aa_deletionTimestamp aa \<and> Finalizer \<in> set (aa_finalizers aa) \<longrightarrow> Finalizer \<in> fins w key))) \<and>
     (\<forall>aa w r w'. op_Update c aa w = (r, w') \<longrightarrow> kids w' = kids w \<and>
        (fins w' = fins w \<or> fins w' = (fins w)(key_of aa := set (aa_finalizers aa))) \<and>
        (\<forall>aa'. r = Inr aa' \<longrightarrow> fins w' = (fins w)(key_of aa := set (aa_finalizers aa)) \<and> key_of aa' = key_of aa)) \<and>
     (\<forall>obj w r w'. op_Apply c obj w = (r, w') \<longrightarrow> fins w' = fins w \<and> kids w \<subseteq> kids w' \<and>
        kids w' \<subseteq> insert (child_id obj) (kids w) \<and> (r = Inr () \<longrightarrow> child_id obj \<in> kids w')) \<and>
     (\<forall>obj w r w'. op_Delete c obj w = (r, w') \<longrightarrow> fins w' = fins w \<and> kids w' \<subseteq> kids w \<and>
        kids w \<subseteq> insert (child_id obj) (kids w') \<and>
        ((\<forall>e. r = Inl e \<longrightarrow> IsNotFound e) \<longrightarrow> child_id obj \<notin> kids w'))"

text \<open>No child exists without an object whose finalizer holds it back.\<close>

definition children_guarded ::
  "('w \<Rightarrow> object_key \<Rightarrow> string set) \<Rightarrow> ('w \<Rightarrow> (child_kind \<times> string) set) \<Rightarrow> 'w \<Rightarrow> bool" where
  "children_guarded fins kids w \<longleftrightarrow>
     (\<forall>kid \<in> kids w. \<exists>key. child_name key = snd kid \<and> Finalizer \<in> fins w key)"

text \<open>
  The world moves by reconcile passes of the operator and by what others do: create and change
  objects, delete children, anything but taking the finalizer away or creating children.
\<close>

inductive operator_step ::
  "operator_libs \<Rightarrow> 'w operator \<Rightarrow> ('w \<Rightarrow> object_key \<Rightarrow> string set) \<Rightarrow> ('w \<Rightarrow> (child_kind \<times> string) set) \<Rightarrow> 'w \<Rightarrow> 'w \<Rightarrow> bool"
  for U c fins kids where
  pass: "finalizer_laws U \<Longrightarrow> operator_laws c fins kids \<Longrightarrow> operator_Reconcile U c req w = (r, w') \<Longrightarrow>
    operator_step U c fins kids w w'"
| others: "\<forall>key. Finalizer \<in> fins w key \<longrightarrow> Finalizer \<in> fins w' key \<Longrightarrow> kids w' \<subseteq> kids w \<Longrightarrow>
    operator_step U c fins kids w w'"


section \<open>Lemmas\<close>

lemma childName_key: "childName aa = child_name (key_of aa)"
  by (simp add: childName_def child_name_def key_of_def)

lemma child_ids [simp]:
  "child_id (Deployment_object (deployment U c aa)) = (DeploymentChild, child_name (key_of aa))"
  "child_id (Service_object (service U c aa)) = (ServiceChild, child_name (key_of aa))"
  by (simp_all add: child_id_def deployment_def service_def childName_key)

lemma finalizer_helpers:
  assumes "finalizer_laws U"
  shows "ol_ContainsFinalizer U aa f = (f \<in> set (aa_finalizers aa))"
    and "fst (ol_AddFinalizer U aa f) = (f \<notin> set (aa_finalizers aa))"
    and "key_of (snd (ol_AddFinalizer U aa f)) = key_of aa"
    and "set (aa_finalizers (snd (ol_AddFinalizer U aa f))) = insert f (set (aa_finalizers aa))"
    and "key_of (ol_RemoveFinalizer U aa f) = key_of aa"
    and "set (aa_finalizers (ol_RemoveFinalizer U aa f)) = set (aa_finalizers aa) - {f}"
proof -
  from assms obtain fs gs where *: "snd (ol_AddFinalizer U aa f) = aa\<lparr>aa_finalizers := fs\<rparr>"
    "set fs = insert f (set (aa_finalizers aa))" "ol_RemoveFinalizer U aa f = aa\<lparr>aa_finalizers := gs\<rparr>"
    "set gs = set (aa_finalizers aa) - {f}" unfolding finalizer_laws_def by metis
  then show "key_of (snd (ol_AddFinalizer U aa f)) = key_of aa"
    "set (aa_finalizers (snd (ol_AddFinalizer U aa f))) = insert f (set (aa_finalizers aa))"
    "key_of (ol_RemoveFinalizer U aa f) = key_of aa"
    "set (aa_finalizers (ol_RemoveFinalizer U aa f)) = set (aa_finalizers aa) - {f}" by (simp_all add: key_of_def)
qed (use assms in \<open>simp_all add: finalizer_laws_def\<close>)

lemma get_law:
  assumes "operator_laws c fins kids" and "op_GetAggregatedAPI c key w = (r, w')"
  shows "fins w' = fins w \<and> kids w' = kids w \<and> (\<forall>aa. r = Inr aa \<longrightarrow> key_of aa = key \<and>
    (\<not> aa_deletionTimestamp aa \<and> Finalizer \<in> set (aa_finalizers aa) \<longrightarrow> Finalizer \<in> fins w key))"
  by (rule assms(1) [unfolded operator_laws_def, THEN conjunct1, rule_format, OF assms(2)])

lemma update_law:
  assumes "operator_laws c fins kids" and "op_Update c aa w = (r, w')"
  shows "kids w' = kids w \<and> (fins w' = fins w \<or> fins w' = (fins w)(key_of aa := set (aa_finalizers aa))) \<and>
    (\<forall>aa'. r = Inr aa' \<longrightarrow> fins w' = (fins w)(key_of aa := set (aa_finalizers aa)) \<and> key_of aa' = key_of aa)"
  by (rule assms(1) [unfolded operator_laws_def, THEN conjunct2, THEN conjunct1, rule_format, OF assms(2)])

lemma update_effect:
  assumes "operator_laws c fins kids" and "op_Update c aa w = (r, w')"
  shows "kids w' = kids w" and "\<forall>key. key \<noteq> key_of aa \<longrightarrow> fins w' key = fins w key"
    and "fins w' (key_of aa) = fins w (key_of aa) \<or> fins w' (key_of aa) = set (aa_finalizers aa)"
    and "r = Inr aa' \<Longrightarrow> fins w' (key_of aa) = set (aa_finalizers aa) \<and> key_of aa' = key_of aa"
  using update_law [OF assms] by (metis fun_upd_apply)+

lemma apply_law:
  assumes "operator_laws c fins kids" and "op_Apply c obj w = (r, w')"
  shows "fins w' = fins w \<and> kids w \<subseteq> kids w' \<and> kids w' \<subseteq> insert (child_id obj) (kids w) \<and>
    (r = Inr () \<longrightarrow> child_id obj \<in> kids w')"
  by (rule assms(1) [unfolded operator_laws_def, THEN conjunct2, THEN conjunct2, THEN conjunct1, rule_format, OF assms(2)])

lemma delete_law:
  assumes "operator_laws c fins kids" and "op_Delete c obj w = (r, w')"
  shows "fins w' = fins w \<and> kids w' \<subseteq> kids w \<and> kids w \<subseteq> insert (child_id obj) (kids w') \<and>
    ((\<forall>e. r = Inl e \<longrightarrow> IsNotFound e) \<longrightarrow> child_id obj \<notin> kids w')"
  by (rule assms(1) [unfolded operator_laws_def, THEN conjunct2, THEN conjunct2, THEN conjunct2, rule_format, OF assms(2)])

lemma delete_child_law:
  assumes "operator_laws c fins kids" and "delete_child c f obj w = (r, w')"
  shows "fins w' = fins w \<and> kids w' \<subseteq> kids w \<and> kids w \<subseteq> insert (child_id obj) (kids w') \<and>
    (r = Inr () \<longrightarrow> child_id obj \<notin> kids w')"
proof -
  obtain r0 where del: "op_Delete c obj w = (r0, w')" and r0: "r = Inr () \<longrightarrow> (\<forall>e. r0 = Inl e \<longrightarrow> IsNotFound e)"
    using assms(2) by (auto simp: delete_child_def split: prod.splits sum.splits if_splits)
  with delete_law [OF assms(1) del] show ?thesis by blast
qed

lemma guarded_mono:
  "children_guarded fins kids w \<Longrightarrow> fins w' = fins w \<Longrightarrow> kids w' \<subseteq> kids w \<Longrightarrow> children_guarded fins kids w'"
  by (auto simp: children_guarded_def)

text \<open>Applying children is safe while the finalizer is in place.\<close>

lemma apply_guarded:
  assumes "operator_laws c fins kids" and "op_Apply c obj w = (r, w')" and "children_guarded fins kids w"
    and "snd (child_id obj) = child_name key" and "Finalizer \<in> fins w key"
  shows "children_guarded fins kids w' \<and> Finalizer \<in> fins w' key"
proof -
  from apply_law [OF assms(1,2)] have same: "fins w' = fins w" and kids: "kids w' \<subseteq> insert (child_id obj) (kids w)"
    by blast+
  have "\<exists>key. child_name key = snd kid \<and> Finalizer \<in> fins w' key" if "kid \<in> kids w'" for kid
  proof (cases "kid = child_id obj")
    case True
    with assms(4,5) same show ?thesis by metis
  next
    case False
    with that kids assms(3) same show ?thesis unfolding children_guarded_def by auto
  qed
  with assms(5) same show ?thesis unfolding children_guarded_def by simp
qed

lemma apply_children_effect:
  assumes laws: "operator_laws c fins kids" and run: "apply_children U c aa w = (r, w')"
    and guarded: "children_guarded fins kids w" and fin: "Finalizer \<in> fins w (key_of aa)"
  shows "children_guarded fins kids w' \<and> Finalizer \<in> fins w' (key_of aa) \<and>
    (r = Inr () \<longrightarrow> {(DeploymentChild, child_name (key_of aa)), (ServiceChild, child_name (key_of aa))} \<subseteq> kids w')"
proof -
  let ?d = "Deployment_object (deployment U c aa)" and ?s = "Service_object (service U c aa)"
  obtain r1 w1 where d: "op_Apply c ?d w = (r1, w1)" by fastforce
  have g1: "children_guarded fins kids w1" "Finalizer \<in> fins w1 (key_of aa)"
    using apply_guarded [OF laws d guarded _ fin] by simp_all
  obtain r2 w2 where s: "op_Apply c ?s w1 = (r2, w2)" by fastforce
  have g2: "children_guarded fins kids w2" "Finalizer \<in> fins w2 (key_of aa)"
    using apply_guarded [OF laws s g1(1) _ g1(2)] by simp_all
  show ?thesis
  proof (cases r1)
    case (Inl e)
    with run d have "w' = w1" "r \<noteq> Inr ()" by (auto simp: apply_children_def bind_io_def map_err_def)
    with g1 show ?thesis by simp
  next
    case (Inr u)
    with run d s have "w' = w2" "r = Inr () \<longrightarrow> r2 = Inr ()"
      by (auto simp: apply_children_def bind_io_def map_err_def ret_def split: sum.splits)
    with g2 Inr apply_law [OF laws d] apply_law [OF laws s] show ?thesis by auto
  qed
qed

text \<open>Finalizing is safe: the finalizer goes last.\<close>

lemma guarded_release:
  assumes "children_guarded fins kids w" and "kids w' \<subseteq> kids w" and "\<forall>kind. (kind, child_name key) \<notin> kids w'"
    and "\<forall>key'. key' \<noteq> key \<longrightarrow> fins w' key' = fins w key'"
  shows "children_guarded fins kids w'"
  unfolding children_guarded_def
proof
  fix kid
  assume kid: "kid \<in> kids w'"
  with assms(1,2) obtain key' where key': "child_name key' = snd kid" "Finalizer \<in> fins w key'"
    unfolding children_guarded_def by blast
  have "key' \<noteq> key" using kid assms(3) key'(1) by (metis prod.collapse)
  then have "Finalizer \<in> fins w' key'" using key'(2) assms(4) by blast
  with key'(1) show "\<exists>key. child_name key = snd kid \<and> Finalizer \<in> fins w' key" by blast
qed

lemma finalize_effect:
  assumes laws: "operator_laws c fins kids" "finalizer_laws U" and run: "finalize U c aa w = (r, w')"
    and guarded: "children_guarded fins kids w"
  shows "children_guarded fins kids w' \<and>
    (r = Inr () \<and> Finalizer \<in> set (aa_finalizers aa) \<longrightarrow>
       (\<forall>kind. (kind, child_name (key_of aa)) \<notin> kids w') \<and> Finalizer \<notin> fins w' (key_of aa))"
proof (cases "Finalizer \<in> set (aa_finalizers aa)")
  case False
  with run guarded show ?thesis by (simp add: finalize_def finalizer_helpers [OF laws(2)] ret_def)
next
  case True
  let ?d = "Deployment_object (deployment U c aa)" and ?s = "Service_object (service U c aa)"
  let ?aa = "ol_RemoveFinalizer U aa Finalizer"
  obtain r1 w1 where d: "delete_child c ''deleting Deployment: %w'' ?d w = (r1, w1)" by fastforce
  obtain r2 w2 where s: "delete_child c ''deleting Service: %w'' ?s w1 = (r2, w2)" by fastforce
  obtain r3 w3 where u: "op_Update c ?aa w2 = (r3, w3)" by fastforce
  note d1 = delete_child_law [OF laws(1) d] and s2 = delete_child_law [OF laws(1) s] and u3 = update_effect [OF laws(1) u]
  have unfolded: "finalize U c aa w = (case r1 of Inl e \<Rightarrow> (Inl e, w1) | Inr _ \<Rightarrow> (case r2 of Inl e \<Rightarrow> (Inl e, w2)
      | Inr _ \<Rightarrow> (case r3 of Inl e \<Rightarrow> (Inl (Wrapf ''removing finalizer: %w'' [] e), w3) | Inr _ \<Rightarrow> (Inr (), w3))))"
    using True d s u
    by (simp add: finalize_def finalizer_helpers [OF laws(2)] bind_io_def map_err_def ret_def split: sum.splits)
  have g1: "children_guarded fins kids w1" using guarded_mono [OF guarded] d1 by blast
  have g2: "children_guarded fins kids w2" using guarded_mono [OF g1] s2 by blast
  show ?thesis
  proof (cases "isl r1 \<or> isl r2")
    case True
    with unfolded run g1 g2 show ?thesis by (auto simp: isl_def split: sum.splits)
  next
    case False
    then have "r1 = Inr ()" "r2 = Inr ()" by (auto simp: isl_def) (metis old.unit.exhaust sumE)+
    then have gone: "(DeploymentChild, child_name (key_of aa)) \<notin> kids w1" "(ServiceChild, child_name (key_of aa)) \<notin> kids w2"
      using d1 s2 by auto
    then have gone2: "(kind, child_name (key_of aa)) \<notin> kids w2" for kind using s2 by (cases kind) auto
    have w': "w' = w3" and ok: "r = Inr () \<longrightarrow> (\<exists>x. r3 = Inr x)"
      using unfolded run False by (auto split: sum.splits)
    have "children_guarded fins kids w3"
      using guarded_release [OF g2, of w3 "key_of aa"] u3(1,2) gone2 finalizer_helpers(5) [OF laws(2), of aa Finalizer] by simp
    moreover have "Finalizer \<notin> fins w3 (key_of aa)" if "r = Inr ()"
      using that ok u3(4) finalizer_helpers(5,6) [OF laws(2), of aa Finalizer] by auto
    ultimately show ?thesis using w' u3(1) gone2 by auto
  qed
qed

lemma update_guarded:
  assumes "operator_laws c fins kids" and "op_Update c aa w = (r, w')" and "children_guarded fins kids w"
    and "Finalizer \<in> set (aa_finalizers aa)"
  shows "children_guarded fins kids w'"
  unfolding children_guarded_def
proof
  note u = update_effect [OF assms(1,2)]
  fix kid
  assume "kid \<in> kids w'"
  then obtain key where key: "child_name key = snd kid" "Finalizer \<in> fins w key"
    using assms(3) u(1) unfolding children_guarded_def by auto
  moreover have "Finalizer \<in> fins w' key" using u(2,3) key(2) assms(4) by metis
  ultimately show "\<exists>key. child_name key = snd kid \<and> Finalizer \<in> fins w' key" by blast
qed

lemma operator_Reconcile_effect:
  assumes laws: "operator_laws c fins kids" "finalizer_laws U" and run: "operator_Reconcile U c req w = (r, w')"
    and guarded: "children_guarded fins kids w" and get: "op_GetAggregatedAPI c req w = (g, w1)"
  shows "children_guarded fins kids w' \<and> (r = Inr () \<longrightarrow> (\<forall>aa. g = Inr aa \<longrightarrow>
    (if aa_deletionTimestamp aa then Finalizer \<in> set (aa_finalizers aa) \<longrightarrow>
        (\<forall>kind. (kind, child_name req) \<notin> kids w') \<and> Finalizer \<notin> fins w' req
     else Finalizer \<in> fins w' req \<and> {(DeploymentChild, child_name req), (ServiceChild, child_name req)} \<subseteq> kids w')))"
proof -
  note g1 = get_law [OF laws(1) get]
  have guarded1: "children_guarded fins kids w1" using guarded_mono [OF guarded] g1 by blast
  show ?thesis
  proof (cases g)
    case (Inl e)
    with run get guarded1 show ?thesis by (auto simp: operator_Reconcile_def split: if_splits)
  next
    case (Inr aa)
    then have key: "key_of aa = req" using g1 by blast
    show ?thesis
    proof (cases "aa_deletionTimestamp aa")
      case True
      with Inr run get have "finalize U c aa w1 = (r, w')" by (simp add: operator_Reconcile_def)
      from finalize_effect [OF laws this guarded1] Inr True key show ?thesis by auto
    next
      case alive: False
      obtain aa1 where add: "ol_AddFinalizer U aa Finalizer = (Finalizer \<notin> set (aa_finalizers aa), aa1)"
        using finalizer_helpers(2) [OF laws(2), of aa Finalizer]
        by (cases "ol_AddFinalizer U aa Finalizer") simp
      have aa1: "key_of aa1 = req" "set (aa_finalizers aa1) = insert Finalizer (set (aa_finalizers aa))"
        using finalizer_helpers(3,4) [OF laws(2), of aa Finalizer] add key by simp_all
      show ?thesis
      proof (cases "Finalizer \<in> set (aa_finalizers aa)")
        case True
        with g1 Inr alive have "Finalizer \<in> fins w1 (key_of aa1)" using aa1(1) by auto
        moreover have "apply_children U c aa1 w1 = (r, w')"
          using run get Inr alive add True by (simp add: operator_Reconcile_def)
        ultimately show ?thesis using apply_children_effect [OF laws(1) _ guarded1] Inr alive aa1(1) by fastforce
      next
        case False
        obtain r2 w2 where u: "op_Update c aa1 w1 = (r2, w2)" by fastforce
        note u2 = update_effect [OF laws(1) u]
        have guarded2: "children_guarded fins kids w2" by (rule update_guarded [OF laws(1) u guarded1]) (simp add: aa1)
        show ?thesis
        proof (cases r2)
          case (Inl e)
          with run get Inr alive add False u guarded2 show ?thesis
            by (auto simp: operator_Reconcile_def bind_io_def map_err_def)
        next
          case (Inr aa2)
          with u2(4) aa1 have fin: "Finalizer \<in> fins w2 (key_of aa2)" and key2: "key_of aa2 = req" by auto
          have "apply_children U c aa2 w2 = (r, w')"
            using run get \<open>g = Inr aa\<close> alive add False u Inr by (simp add: operator_Reconcile_def bind_io_def map_err_def)
          from apply_children_effect [OF laws(1) this guarded2 fin] \<open>g = Inr aa\<close> alive key2 show ?thesis by auto
        qed
      qed
    qed
  qed
qed

interpretation guard: inductive_invariant "\<lambda>w. kids w = {}" "operator_step U c fins kids" "children_guarded fins kids"
  for U c fins kids
proof unfold_locales
  show "children_guarded fins kids w" if "kids w = {}" for w using that by (simp add: children_guarded_def)
  show "children_guarded fins kids w'" if guarded: "children_guarded fins kids w" and step: "operator_step U c fins kids w w'" for w w'
    using step
  proof cases
    case (pass req r)
    obtain g w1 where "op_GetAggregatedAPI c req w = (g, w1)" by fastforce
    from operator_Reconcile_effect [OF pass(2,1,3) guarded this] show ?thesis by blast
  next
    case others
    with guarded show ?thesis by (fastforce simp: children_guarded_def)
  qed
qed


section \<open>A concrete API server\<close>

type_synonym host_world = "(object_key \<Rightarrow> AggregatedAPI option) \<times> (child_kind \<times> string) set"

definition host_fins :: "host_world \<Rightarrow> object_key \<Rightarrow> string set" where
  "host_fins w key = (case fst w key of None \<Rightarrow> {} | Some aa \<Rightarrow> set (aa_finalizers aa))"

definition demo_operator :: "host_world operator" where
  "demo_operator =
     \<lparr>op_Namespace = ''ops'', op_ServiceAccount = ''api-aggregator'',
      op_GetAggregatedAPI = (\<lambda>key w. (case fst w key of
          None \<Rightarrow> Inl (Status (NotFound \<lparr>gr_group = '''', gr_resource = ''''\<rparr> (snd key)))
        | Some aa \<Rightarrow> Inr (aa\<lparr>aa_namespace := fst key, aa_name := snd key\<rparr>), w)),
      op_Apply = (\<lambda>obj w. (Inr (), (fst w, insert (child_id obj) (snd w)))),
      op_Update = (\<lambda>aa w. (Inr aa, ((fst w)(key_of aa \<mapsto> aa), snd w))),
      op_Delete = (\<lambda>obj w. (if child_id obj \<in> snd w then Inr ()
         else Inl (Status (NotFound \<lparr>gr_group = '''', gr_resource = ''''\<rparr> '''')), (fst w, snd w - {child_id obj})))\<rparr>"

definition demo_finalizers :: operator_libs where
  "demo_finalizers =
     \<lparr>ol_gvString = gv_version,
      ol_AddFinalizer = (\<lambda>aa f. if f \<in> set (aa_finalizers aa) then (False, aa)
         else (True, aa\<lparr>aa_finalizers := aa_finalizers aa @ [f]\<rparr>)),
      ol_ContainsFinalizer = (\<lambda>aa f. f \<in> set (aa_finalizers aa)),
      ol_RemoveFinalizer = (\<lambda>aa f. aa\<lparr>aa_finalizers := filter (\<lambda>g. g \<noteq> f) (aa_finalizers aa)\<rparr>)\<rparr>"

lemma demo_finalizer_laws: "finalizer_laws demo_finalizers"
  unfolding finalizer_laws_def
proof (intro allI conjI)
  fix aa :: AggregatedAPI and f :: string
  show "\<exists>fs. snd (ol_AddFinalizer demo_finalizers aa f) = aa\<lparr>aa_finalizers := fs\<rparr> \<and> set fs = insert f (set (aa_finalizers aa))"
    by (rule exI [of _ "if f \<in> set (aa_finalizers aa) then aa_finalizers aa else aa_finalizers aa @ [f]"])
      (auto simp: demo_finalizers_def)
  show "\<exists>fs. ol_RemoveFinalizer demo_finalizers aa f = aa\<lparr>aa_finalizers := fs\<rparr> \<and> set fs = set (aa_finalizers aa) - {f}"
    by (rule exI [of _ "filter (\<lambda>g. g \<noteq> f) (aa_finalizers aa)"]) (auto simp: demo_finalizers_def)
qed (simp_all add: demo_finalizers_def)

lemma demo_operator_laws: "operator_laws demo_operator host_fins snd"
  unfolding operator_laws_def
proof (intro conjI allI impI)
  fix key :: object_key and w w' :: host_world and r
  assume get: "op_GetAggregatedAPI demo_operator key w = (r, w')"
  then show "host_fins w' = host_fins w" "snd w' = snd w" by (simp_all add: demo_operator_def)
  fix aa
  assume "r = Inr aa"
  with get obtain aa0 where "fst w key = Some aa0" "aa = aa0\<lparr>aa_namespace := fst key, aa_name := snd key\<rparr>"
    by (auto simp: demo_operator_def split: option.splits)
  then show "key_of aa = key"
    "\<not> aa_deletionTimestamp aa \<and> Finalizer \<in> set (aa_finalizers aa) \<Longrightarrow> Finalizer \<in> host_fins w key"
    by (simp_all add: key_of_def host_fins_def)
next
  fix aa :: AggregatedAPI and w w' :: host_world and r
  assume upd: "op_Update demo_operator aa w = (r, w')"
  then show "snd w' = snd w" by (auto simp: demo_operator_def)
  from upd show "host_fins w' = host_fins w \<or> host_fins w' = (host_fins w)(key_of aa := set (aa_finalizers aa))"
    by (auto simp: demo_operator_def host_fins_def fun_eq_iff)
  fix aa'
  assume "r = Inr aa'"
  with upd show "host_fins w' = (host_fins w)(key_of aa := set (aa_finalizers aa))" "key_of aa' = key_of aa"
    by (auto simp: demo_operator_def host_fins_def fun_eq_iff)
qed (auto simp: demo_operator_def host_fins_def fun_eq_iff split: if_splits)

definition team_web :: AggregatedAPI where
  "team_web =
     \<lparr>aa_namespace = ''team'', aa_name = ''web'', aa_uid = ''1'', aa_generation = 3, aa_deletionTimestamp = False,
      aa_finalizers = [], aa_Spec = \<lparr>sp_Image = '''', sp_ResyncInterval = None, sp_Clusters = []\<rparr>,
      aa_Status = \<lparr>sts_Conditions = [], sts_URL = '''', sts_KubeconfigSecret = ''''\<rparr>\<rparr>"

definition fresh_host :: host_world where
  "fresh_host = ([(''team'', ''web'') \<mapsto> team_web], {})"

section \<open>Properties\<close>

text \<open>
  C13. No workload is left behind: from a state without children, whatever reconcile passes run, on
  whatever objects, with whichever calls failing, and whatever others do that leaves the finalizers
  alone, every Deployment or Service of the operator belongs to an object that still carries the
  finalizer.
\<close>

theorem no_orphaned_children:
  assumes "kids w0 = {}" and "(operator_step U c fins kids)\<^sup>*\<^sup>* w0 w" and "(kind, name) \<in> kids w"
  shows "\<exists>key. child_name key = name \<and> Finalizer \<in> fins w key"
proof -
  have "children_guarded fins kids w" using assms(1,2) by (rule guard.reached_invar)
  with assms(3) show ?thesis unfolding children_guarded_def by fastforce
qed

definition after_pass :: host_world where
  "after_pass = snd (operator_Reconcile demo_finalizers demo_operator (''team'', ''web'') fresh_host)"

lemma demo_pass:
  "operator_Reconcile demo_finalizers demo_operator (''team'', ''web'') fresh_host = (Inr (), after_pass)"
  "snd after_pass = {(DeploymentChild, ''aggregator-team-web''), (ServiceChild, ''aggregator-team-web'')}"
proof -
  let ?aa = "team_web\<lparr>aa_finalizers := [Finalizer]\<rparr>"
  have "team_web\<lparr>aa_namespace := ''team'', aa_name := ''web''\<rparr> = team_web" by (simp add: team_web_def)
  then have get: "op_GetAggregatedAPI demo_operator (''team'', ''web'') fresh_host = (Inr team_web, fresh_host)"
    by (simp add: demo_operator_def fresh_host_def)
  have alive: "\<not> aa_deletionTimestamp team_web" by (simp add: team_web_def)
  have add: "ol_AddFinalizer demo_finalizers team_web Finalizer = (True, ?aa)"
    by (simp add: demo_finalizers_def team_web_def)
  have key: "child_name (key_of ?aa) = ''aggregator-team-web''" by (simp add: child_name_def key_of_def team_web_def)
  have upd: "op_Update demo_operator ?aa fresh_host = (Inr ?aa, ((fst fresh_host)(key_of ?aa \<mapsto> ?aa), {}))"
    by (simp add: demo_operator_def fresh_host_def)
  have app: "apply_children demo_finalizers demo_operator ?aa (f, {}) =
      (Inr (), (f, {(DeploymentChild, ''aggregator-team-web''), (ServiceChild, ''aggregator-team-web'')}))" for f
    unfolding apply_children_def bind_io_def map_err_def ret_def
    using key by (simp add: demo_operator_def insert_commute)
  have "operator_Reconcile demo_finalizers demo_operator (''team'', ''web'') fresh_host =
      (Inr (), ((fst fresh_host)(key_of ?aa \<mapsto> ?aa),
        {(DeploymentChild, ''aggregator-team-web''), (ServiceChild, ''aggregator-team-web'')}))"
    using alive by (simp add: operator_Reconcile_def get add bind_io_def map_err_def upd app)
  then show "operator_Reconcile demo_finalizers demo_operator (''team'', ''web'') fresh_host = (Inr (), after_pass)"
    "snd after_pass = {(DeploymentChild, ''aggregator-team-web''), (ServiceChild, ''aggregator-team-web'')}"
    by (simp_all add: after_pass_def)
qed

theorem no_orphaned_children_witness:
  "\<exists>key. child_name key = ''aggregator-team-web'' \<and> Finalizer \<in> host_fins after_pass key"
proof -
  have "operator_step demo_finalizers demo_operator host_fins snd fresh_host after_pass"
    by (rule operator_step.pass [OF demo_finalizer_laws demo_operator_laws demo_pass(1)])
  then have steps: "(operator_step demo_finalizers demo_operator host_fins snd)\<^sup>*\<^sup>* fresh_host after_pass" by simp
  have "snd fresh_host = {}" by (simp add: fresh_host_def)
  from no_orphaned_children [OF this steps, of DeploymentChild] demo_pass(2) show ?thesis by auto
qed

text \<open>
  C36. A pass that succeeds has done its work: for a live object the finalizer is stored and Deployment
  and Service exist; for an object that is being deleted and carried the finalizer neither exists any
  more and the finalizer is gone.
\<close>

theorem operator_pass_converges:
  assumes "finalizer_laws U" and "operator_laws c fins kids" and "children_guarded fins kids w"
    and "op_GetAggregatedAPI c req w = (Inr aa, w1)" and "operator_Reconcile U c req w = (Inr (), w')"
  shows "if aa_deletionTimestamp aa
    then Finalizer \<in> set (aa_finalizers aa) \<longrightarrow>
      (\<forall>kind. (kind, child_name req) \<notin> kids w') \<and> Finalizer \<notin> fins w' req
    else Finalizer \<in> fins w' req \<and> {(DeploymentChild, child_name req), (ServiceChild, child_name req)} \<subseteq> kids w'"
  using operator_Reconcile_effect [OF assms(2,1,5,3,4)] by blast

theorem operator_pass_converges_witness:
  "Finalizer \<in> host_fins after_pass (''team'', ''web'') \<and> (ServiceChild, ''aggregator-team-web'') \<in> snd after_pass"
proof -
  have "children_guarded host_fins snd fresh_host" by (simp add: children_guarded_def fresh_host_def)
  moreover have "op_GetAggregatedAPI demo_operator (''team'', ''web'') fresh_host = (Inr team_web, fresh_host)"
    by (simp add: demo_operator_def fresh_host_def team_web_def)
  ultimately have "if aa_deletionTimestamp team_web
    then Finalizer \<in> set (aa_finalizers team_web) \<longrightarrow>
      (\<forall>kind. (kind, child_name (''team'', ''web'')) \<notin> snd after_pass) \<and> Finalizer \<notin> host_fins after_pass (''team'', ''web'')
    else Finalizer \<in> host_fins after_pass (''team'', ''web'') \<and>
      {(DeploymentChild, child_name (''team'', ''web'')), (ServiceChild, child_name (''team'', ''web''))} \<subseteq> snd after_pass"
    by (rule operator_pass_converges [OF demo_finalizer_laws demo_operator_laws _ _ demo_pass(1)])
  then show ?thesis by (simp add: team_web_def child_name_def)
qed

text \<open>
  C37. The children lead back to their object: the labels of the Deployment and of the Service name
  exactly one object to reconcile, the one they were made for, and the Service selects the pods of the
  Deployment and forwards to a port they open. (The name of a namespace has no dot.)
\<close>

theorem children_lead_back:
  assumes "CHR ''.'' \<notin> set (aa_namespace aa)"
  shows "toAggregatedAPI (dp_Labels (deployment U c aa)) = [(aa_namespace aa, aa_name aa)] \<and>
    toAggregatedAPI (svc_Labels (service U c aa)) = [(aa_namespace aa, aa_name aa)] \<and>
    svc_Selector (service U c aa) \<subseteq>\<^sub>m dp_PodLabels (deployment U c aa) \<and>
    dp_MatchLabels (deployment U c aa) \<subseteq>\<^sub>m dp_PodLabels (deployment U c aa) \<and>
    (\<forall>p \<in> set (svc_Ports (service U c aa)). \<exists>n \<in> set (dp_Containers (deployment U c aa)).
       spt_TargetPort p \<in> fst ` set (cn_Ports n))"
proof -
  have "map_get (Some (labels aa)) ''app.kubernetes.io/instance'' = aa_namespace aa @ ''.'' @ aa_name aa"
    by (simp add: labels_def map_get_def)
  moreover have "strings_Cut (aa_namespace aa @ ''.'' @ aa_name aa) CHR ''.'' = (aa_namespace aa, aa_name aa, True)"
    using strings_Cut_found [of "CHR ''.''" "aa_namespace aa" "aa_name aa"] assms by simp
  ultimately have "toAggregatedAPI (labels aa) = [(aa_namespace aa, aa_name aa)]" by (simp add: toAggregatedAPI_def Let_def)
  then show ?thesis by (simp add: deployment_def service_def)
qed

theorem children_lead_back_witness:
  "toAggregatedAPI (svc_Labels (service demo_finalizers demo_operator team_web)) = [(''team'', ''web'')]"
proof -
  have "CHR ''.'' \<notin> set (aa_namespace team_web)" by (simp add: team_web_def)
  from children_lead_back [OF this, of demo_finalizers demo_operator, THEN conjunct2, THEN conjunct1]
  have "toAggregatedAPI (svc_Labels (service demo_finalizers demo_operator team_web)) =
      [(aa_namespace team_web, aa_name team_web)]" .
  moreover have "aa_namespace team_web = ''team''" "aa_name team_web = ''web''" by (simp_all add: team_web_def)
  ultimately show ?thesis by (simp only:)
qed

text \<open>
  A Service name and a label value have at most 63 characters; the names the children get stay within
  that exactly when namespace and name of the object have at most 51 together.
\<close>

lemma child_lengths:
  "length (childName aa) \<le> 63 \<and> (\<forall>v \<in> ran (labels aa). length v \<le> 63) \<longleftrightarrow> length (aa_namespace aa) + length (aa_name aa) \<le> 51"
  by (auto simp: childName_def labels_def FieldOwner_def ran_def)

text \<open>
  The names of the children do not tell all objects apart: the objects \<open>b-c\<close> in namespace \<open>a\<close> and
  \<open>c\<close> in namespace \<open>a-b\<close> get a Deployment of the same name in the same namespace, though their labels
  differ, so that each pass over one of them overwrites, and the finalization of one deletes, the
  workload of the other.
\<close>

theorem child_names_collide:
  "\<exists>aa aa'. key_of aa \<noteq> key_of aa' \<and> childName aa = childName aa' \<and>
     child_id (Deployment_object (deployment U c aa)) = child_id (Deployment_object (deployment U c aa')) \<and>
     dp_Namespace (deployment U c aa) = dp_Namespace (deployment U c aa') \<and>
     dp_Labels (deployment U c aa) \<noteq> dp_Labels (deployment U c aa')"
proof -
  let ?a = "team_web\<lparr>aa_namespace := ''a'', aa_name := ''b-c''\<rparr>" and ?b = "team_web\<lparr>aa_namespace := ''a-b'', aa_name := ''c''\<rparr>"
  have "labels ?a ''app.kubernetes.io/instance'' \<noteq> labels ?b ''app.kubernetes.io/instance''" by (simp add: labels_def)
  then have "labels ?a \<noteq> labels ?b" by metis
  then show ?thesis
    by (intro exI [of _ ?a] exI [of _ ?b])
      (simp add: key_of_def childName_def child_id_def deployment_def)
qed

end
