(* ===== verification/Flags.thy ===== *)
theory Flags
  imports Duration
begin

text \<open>
  Command lines: the parser of the standard \<open>flag\<close> package and the kinds of flags the commands
  define. A flag is the function that sets it on the options (type \<open>'o\<close>); a failure carries the
  message the package prints.
\<close>

section \<open>Definitions\<close>

subsection \<open>Integers\<close>

text \<open>\<open>strconv.ParseInt(s, 0, 64)\<close>: sign, base prefix, underscores between digits.\<close>

datatype num_error = Syntax | Range

definition lower :: "char \<Rightarrow> char" where
  "lower c = (if 65 \<le> (of_char c :: nat) \<and> (of_char c :: nat) \<le> 90 then char_of ((of_char c :: nat) + 32) else c)"

definition hex_letter :: "char \<Rightarrow> bool" where
  "hex_letter c = (97 \<le> (of_char (lower c) :: nat) \<and> (of_char (lower c) :: nat) \<le> 102)"

fun underscores :: "bool \<Rightarrow> char \<Rightarrow> string \<Rightarrow> bool" where
  "underscores hex saw [] = (saw \<noteq> CHR ''_'')"
| "underscores hex saw (c # s) =
     (if is_digit c \<or> hex \<and> hex_letter c then underscores hex CHR ''0'' s
      else if c = CHR ''_'' then saw = CHR ''0'' \<and> underscores hex CHR ''_'' s
      else saw \<noteq> CHR ''_'' \<and> underscores hex CHR ''!'' s)"

definition underscoreOK :: "string \<Rightarrow> bool" where
  "underscoreOK s =
     (let s = (if s \<noteq> [] \<and> (hd s = CHR ''-'' \<or> hd s = CHR ''+'') then tl s else s)
      in case s of
           z # b # r \<Rightarrow>
             if z = CHR ''0'' \<and> lower b \<in> {CHR ''b'', CHR ''o'', CHR ''x''}
             then underscores (lower b = CHR ''x'') CHR ''0'' r else underscores False CHR ''^'' s
         | _ \<Rightarrow> underscores False CHR ''^'' s)"

definition base_of :: "string \<Rightarrow> nat \<times> string" where
  "base_of s =
     (if s = [] \<or> hd s \<noteq> CHR ''0'' then (10, s)
      else if 3 \<le> length s \<and> lower (s ! 1) = CHR ''b'' then (2, drop 2 s)
      else if 3 \<le> length s \<and> lower (s ! 1) = CHR ''o'' then (8, drop 2 s)
      else if 3 \<le> length s \<and> lower (s ! 1) = CHR ''x'' then (16, drop 2 s)
      else (8, tl s))"

fun accumulate :: "nat \<Rightarrow> nat \<Rightarrow> string \<Rightarrow> num_error + nat" where
  "accumulate base n [] = Inr n"
| "accumulate base n (c # s) =
     (if c = CHR ''_'' then accumulate base n s
      else let d = (if is_digit c then digit_val c
                    else if 97 \<le> (of_char (lower c) :: nat) \<and> (of_char (lower c) :: nat) \<le> 122
                    then of_char (lower c) - 87 else 255)
           in if base \<le> d then Inl Syntax
              else if 2 ^ 64 \<le> n * base + d then Inl Range
              else accumulate base (n * base + d) s)"

definition ParseUint :: "string \<Rightarrow> num_error + nat" where
  "ParseUint s =
     (if s = [] then Inl Syntax
      else case base_of s of (base, r) \<Rightarrow>
        (case accumulate base 0 r of
           Inl e \<Rightarrow> Inl e
         | Inr n \<Rightarrow> if CHR ''_'' \<in> set r \<and> \<not> underscoreOK s then Inl Syntax else Inr n))"

definition ParseInt :: "string \<Rightarrow> num_error + int" where
  "ParseInt s =
     (if s = [] then Inl Syntax
      else let neg = (hd s = CHR ''-''); r = (if hd s = CHR ''-'' \<or> hd s = CHR ''+'' then tl s else s)
           in case ParseUint r of
                Inl e \<Rightarrow> Inl e
              | Inr n \<Rightarrow>
                  if \<not> neg \<and> two63 \<le> n then Inl Range
                  else if neg \<and> two63 < n then Inl Range
                  else Inr (if neg then - int n else int n))"

subsection \<open>Flags\<close>

type_synonym 'o flag = "string \<Rightarrow> 'o \<Rightarrow> string + 'o"

definition StringVar :: "(string \<Rightarrow> 'o \<Rightarrow> 'o) \<Rightarrow> 'o flag" where
  "StringVar upd v opts = Inr (upd v opts)"

definition IntVar :: "(int \<Rightarrow> 'o \<Rightarrow> 'o) \<Rightarrow> 'o flag" where
  "IntVar upd v opts =
     (case ParseInt v of
        Inl Syntax \<Rightarrow> Inl ''parse error''
      | Inl Range \<Rightarrow> Inl ''value out of range''
      | Inr i \<Rightarrow> Inr (upd i opts))"

definition DurationVar :: "(int \<Rightarrow> 'o \<Rightarrow> 'o) \<Rightarrow> 'o flag" where
  "DurationVar upd v opts =
     (case ParseDuration v of None \<Rightarrow> Inl ''parse error'' | Some d \<Rightarrow> Inr (upd d opts))"

text \<open>A flag of one part of the options.\<close>

definition on_first :: "'a flag \<Rightarrow> ('a \<times> 'b) flag" where
  "on_first f v p = (case f v (fst p) of Inl e \<Rightarrow> Inl e | Inr a \<Rightarrow> Inr (a, snd p))"

definition on_second :: "'b flag \<Rightarrow> ('a \<times> 'b) flag" where
  "on_second f v p = (case f v (snd p) of Inl e \<Rightarrow> Inl e | Inr b \<Rightarrow> Inr (fst p, b))"

subsection \<open>Parsing\<close>

text \<open>
  One argument: a flag without its dashes, with the value after an equals sign if it has one; the end
  of the flags; or an error.
\<close>

datatype argument = Flag_arg string "string option" | End_of_flags | Bad_syntax

definition read_argument :: "string \<Rightarrow> argument" where
  "read_argument s =
     (if length s < 2 \<or> hd s \<noteq> CHR ''-'' then End_of_flags
      else if s = ''--'' then End_of_flags
      else let name = (if s ! 1 = CHR ''-'' then drop 2 s else drop 1 s)
           in if name = [] \<or> hd name = CHR ''-'' \<or> hd name = CHR ''='' then Bad_syntax
              else let n = hd name # takeWhile (\<lambda>c. c \<noteq> CHR ''='') (tl name);
                       r = dropWhile (\<lambda>c. c \<noteq> CHR ''='') (tl name)
                   in Flag_arg n (if r = [] then None else Some (tl r)))"

definition undefined_flag :: "string \<Rightarrow> go_error" where
  "undefined_flag name =
     (if name = ''help'' \<or> name = ''h'' then New ''flag: help requested''
      else New (sprintf ''flag provided but not defined: -%s'' [name]))"

definition set_flag :: "(string \<times> 'o flag) list \<Rightarrow> string \<Rightarrow> string \<Rightarrow> 'o \<Rightarrow> 'o result" where
  "set_flag flags name value opts =
     (case map_of flags name of
        None \<Rightarrow> Inl (undefined_flag name)
      | Some f \<Rightarrow>
          (case f value opts of
             Inl msg \<Rightarrow> Inl (New (sprintf ''invalid value %q for flag -%s: %v'' [value, name, msg]))
           | Inr opts' \<Rightarrow> Inr opts'))"

text \<open>\<open>FlagSet.Parse\<close> for flags that take a value.\<close>

fun flag_Parse :: "(string \<times> 'o flag) list \<Rightarrow> string list \<Rightarrow> 'o \<Rightarrow> 'o result" where
  "flag_Parse flags [] opts = Inr opts"
| "flag_Parse flags [s] opts =
     (case read_argument s of
        End_of_flags \<Rightarrow> Inr opts
      | Bad_syntax \<Rightarrow> Inl (New (sprintf ''bad flag syntax: %s'' [s]))
      | Flag_arg name (Some value) \<Rightarrow> set_flag flags name value opts
      | Flag_arg name None \<Rightarrow>
          (case map_of flags name of
             None \<Rightarrow> Inl (undefined_flag name)
           | Some f \<Rightarrow> Inl (New (sprintf ''flag needs an argument: -%s'' [name]))))"
| "flag_Parse flags (s # t # args) opts =
     (case read_argument s of
        End_of_flags \<Rightarrow> Inr opts
      | Bad_syntax \<Rightarrow> Inl (New (sprintf ''bad flag syntax: %s'' [s]))
      | Flag_arg name (Some value) \<Rightarrow>
          (case set_flag flags name value opts of Inl e \<Rightarrow> Inl e | Inr opts' \<Rightarrow> flag_Parse flags (t # args) opts')
      | Flag_arg name None \<Rightarrow>
          (case set_flag flags name t opts of Inl e \<Rightarrow> Inl e | Inr opts' \<Rightarrow> flag_Parse flags args opts'))"

section \<open>Lemmas\<close>

lemma read_long_flag:
  assumes "name \<noteq> []" and "hd name \<noteq> CHR ''-''" and "CHR ''='' \<notin> set name"
  shows "read_argument (''--'' @ name) = Flag_arg name None"
proof -
  obtain c r where name: "name = c # r" using assms(1) by (cases name) simp_all
  with assms(3) have "takeWhile (\<lambda>c. c \<noteq> CHR ''='') r = r" "dropWhile (\<lambda>c. c \<noteq> CHR ''='') r = []"
    by (induction r) auto
  moreover have "c \<noteq> CHR ''=''" "c \<noteq> CHR ''-''" using assms(2,3) name by auto
  ultimately show ?thesis unfolding read_argument_def Let_def name by simp
qed

text \<open>A flag given as \<open>--name value\<close> is set to that value, whatever the value looks like.\<close>

lemma flag_Parse_long:
  assumes "name \<noteq> []" and "hd name \<noteq> CHR ''-''" and "CHR ''='' \<notin> set name"
    and "map_of flags name = Some f" and "f value opts = Inr opts'"
  shows "flag_Parse flags ((''--'' @ name) # value # args) opts = flag_Parse flags args opts'"
  using read_long_flag [OF assms(1-3)] assms(4,5) by (simp add: set_flag_def)

end
