(* ===== verification/Commands.thy ===== *)
theory Commands
  imports Aggregator Operator Flags
begin

text \<open>
  The commands \<open>cmd/api-aggregator\<close> and \<open>cmd/operator\<close>: their flags, how they put the components
  together, and the serving loop of the server. Logging, signals and the manager of controller-runtime
  are parameters.
\<close>

section \<open>Definitions\<close>

subsection \<open>Flags\<close>

text \<open>\<open>RegisterFlags\<close> of each component: the options with their defaults, and the flags.\<close>

definition options_RegisterFlags :: "server_options \<Rightarrow> server_options \<times> (string \<times> server_options flag) list" where
  "options_RegisterFlags opts =
     (options_defaults opts,
      [(''hostname'', StringVar (\<lambda>v o'. o'\<lparr>opt_Hostname := v\<rparr>)),
       (''port'', IntVar (\<lambda>v o'. o'\<lparr>opt_Port := v\<rparr>)),
       (''tls-cert-file'', StringVar (\<lambda>v o'. o'\<lparr>opt_TLSCertFile := v\<rparr>)),
       (''tls-key-file'', StringVar (\<lambda>v o'. o'\<lparr>opt_TLSKeyFile := v\<rparr>)),
       (''resync-interval'', DurationVar (\<lambda>v o'. o'\<lparr>opt_ResyncInterval := v\<rparr>))])"

definition aggregator_RegisterFlags ::
  "('w, 'h, 'c) aggregator_options
     \<Rightarrow> ('w, 'h, 'c) aggregator_options \<times> (string \<times> ('w, 'h, 'c) aggregator_options flag) list" where
  "aggregator_RegisterFlags opts =
     (aggregator_defaults opts,
      [(''aggregated-api'', StringVar (\<lambda>v o'. o'\<lparr>ao_AggregatedAPI := v\<rparr>)),
       (''namespace'', StringVar (\<lambda>v o'. o'\<lparr>ao_Namespace := v\<rparr>)),
       (''url'', StringVar (\<lambda>v o'. o'\<lparr>ao_URL := v\<rparr>))])"

definition operator_RegisterFlags ::
  "'w operator_options \<Rightarrow> 'w operator_options \<times> (string \<times> 'w operator_options flag) list" where
  "operator_RegisterFlags opts =
     (operator_defaults opts,
      [(''namespace'', StringVar (\<lambda>v o'. o'\<lparr>oo_Namespace := v\<rparr>)),
       (''service-account'', StringVar (\<lambda>v o'. o'\<lparr>oo_ServiceAccount := v\<rparr>))])"

subsection \<open>Serving\<close>

record 'ip secure_serving =
  ss_BindAddress :: "'ip option"
  ss_BindPort :: int
  ss_CertFile :: string
  ss_KeyFile :: string
  ss_CertDirectory :: string

text \<open>
  The options of the serving library, with what the server calls to fill and use them; \<open>'srv\<close> is a
  bound listener. \<open>lv_Serve\<close> gets the shutdown timeout, and returns when serving has ended.
\<close>

record ('w, 'ip, 'srv) serving_lib =
  lv_NewSecureServingOptions :: "'ip secure_serving"
  lv_ParseIP :: "string \<Rightarrow> 'ip option"
  lv_MkdirTemp :: "string \<Rightarrow> string \<Rightarrow> ('w, string) io"
  lv_MaybeDefaultWithSelfSignedCerts :: "'ip secure_serving \<Rightarrow> string \<Rightarrow> ('w, 'ip secure_serving) io"
  lv_ApplyTo :: "'ip secure_serving \<Rightarrow> ('w, 'srv) io"
  lv_Serve :: "'srv \<Rightarrow> int \<Rightarrow> ('w, unit) io"

definition listen :: "('w, 'ip, 'srv) serving_lib \<Rightarrow> server_options \<Rightarrow> ('w, 'srv) io" where
  "listen V opts =
     (let secureServing = (lv_NewSecureServingOptions V)\<lparr>ss_BindAddress := lv_ParseIP V (opt_Hostname opts),
            ss_BindPort := opt_Port opts, ss_CertFile := opt_TLSCertFile opts, ss_KeyFile := opt_TLSKeyFile opts\<rparr>
      in bind_io
           (if opt_TLSCertFile opts = ''''
            then bind_io (map_err (Wrapf ''creating cert directory: %w'' []) (lv_MkdirTemp V '''' ''api-aggregator-certs-''))
                   (\<lambda>dir. map_err (Wrapf ''generating self-signed serving certs: %w'' [])
                      (lv_MaybeDefaultWithSelfSignedCerts V (secureServing\<lparr>ss_CertDirectory := dir\<rparr>) (opt_Hostname opts)))
            else ret secureServing)
           (\<lambda>secureServing. map_err (Wrapf ''applying secure serving options: %w'' []) (lv_ApplyTo V secureServing)))"

text \<open>
  \<open>resyncLoop\<close>: the events its \<open>select\<close> takes, in order; the loop goes on as long as they do not end
  with the context. \<open>None\<close> is the panic of \<open>time.NewTicker\<close> on an interval that is not positive.
\<close>

datatype loop_event = Tick | Context_done

fun resync_ticks ::
  "('w, 'h, 'd) server_libs \<Rightarrow> group_parser \<Rightarrow> loop_event list \<Rightarrow> ('w, 'h, 'd) server \<Rightarrow> 'w \<Rightarrow> ('w, 'h, 'd) server \<times> 'w" where
  "resync_ticks lib parse [] s w = (s, w)"
| "resync_ticks lib parse (Context_done # es) s w = (s, w)"
| "resync_ticks lib parse (Tick # es) s w =
     (case resync lib parse s w of (s', w') \<Rightarrow> resync_ticks lib parse es s' w')"

definition resyncLoop ::
  "('w, 'h, 'd) server_libs \<Rightarrow> group_parser \<Rightarrow> loop_event list \<Rightarrow> ('w, 'h, 'd) server \<Rightarrow> 'w
     \<Rightarrow> (('w, 'h, 'd) server \<times> 'w) option" where
  "resyncLoop lib parse events s w =
     (if opt_ResyncInterval (sv_opts s) \<le> 0 then None else Some (resync_ticks lib parse events s w))"

text \<open>\<open>Run\<close>; the resync loop runs beside it.\<close>

definition server_Run :: "('w, 'ip, 'srv) serving_lib \<Rightarrow> ('w, 'h, 'd) server \<Rightarrow> ('w, unit) io" where
  "server_Run V s =
     bind_io (listen V (sv_opts s)) (\<lambda>serving. map_err (Wrapf ''serving: %w'' []) (lv_Serve V serving (10 * second)))"

subsection \<open>The commands\<close>

text \<open>
  The rest of the process: the flags the libraries define (\<open>'z\<close> are their options), the configuration
  of the host cluster (\<open>'cfg\<close>) and the manager made from it.
\<close>

record ('z, 'cfg, 'mgr) process =
  pr_libFlags :: "(string \<times> 'z flag) list"
  pr_libOptions :: 'z
  pr_GetConfig :: "'cfg result"
  pr_NewManager :: "'cfg \<Rightarrow> 'mgr result"

text \<open>\<open>flag.Parse\<close>; defining a flag twice is a panic of the \<open>flag\<close> package.\<close>

definition parse_command_line :: "(string \<times> 'o flag) list \<Rightarrow> string list \<Rightarrow> 'o \<Rightarrow> 'o result" where
  "parse_command_line flags args opts =
     (if \<not> distinct (map fst flags) then Inl (New ''flag redefined'') else flag_Parse flags args opts)"

definition no_aggregator_options :: "('w, 'h, 'c) aggregator_options" where
  "no_aggregator_options =
     \<lparr>ao_AggregatedAPI = '''', ao_Namespace = '''', ao_Client = None, ao_Server = None, ao_URL = '''',
      ao_DiscoveryClient = None, ao_DynamicClient = None\<rparr>"

definition no_server_options :: server_options where
  "no_server_options =
     \<lparr>opt_Hostname = '''', opt_Port = 0, opt_TLSCertFile = '''', opt_TLSKeyFile = '''', opt_ResyncInterval = 0\<rparr>"

text \<open>
  \<open>run\<close> of \<open>cmd/api-aggregator\<close>, up to the controller and the server it then runs. A manager is here
  its client and whether the controller can be added to it.
\<close>

definition aggregator_flags ::
  "('z, 'cfg, 'mgr) process
     \<Rightarrow> (string \<times> (('w, 'h, 'c) aggregator_options \<times> server_options \<times> 'z) flag) list" where
  "aggregator_flags env =
     map (\<lambda>(n, f). (n, on_first f)) (snd (aggregator_RegisterFlags no_aggregator_options)) @
     map (\<lambda>(n, f). (n, on_second (on_first f))) (snd (options_RegisterFlags no_server_options)) @
     map (\<lambda>(n, f). (n, on_second (on_second f))) (pr_libFlags env)"

definition aggregator_command ::
  "('w, 'h, 'c) k8s_libs
     \<Rightarrow> ('z, 'cfg, 'w host_client \<times> (('w, 'h, 'c) Controller \<Rightarrow> go_error option)) process \<Rightarrow> string list
     \<Rightarrow> (('w, 'h, 'c) Controller \<times> ('w, 'h, 'd) server) result" where
  "aggregator_command K env args =
     (case parse_command_line (aggregator_flags env) args
             (fst (aggregator_RegisterFlags no_aggregator_options), fst (options_RegisterFlags no_server_options), pr_libOptions env) of
        Inl err \<Rightarrow> Inl err
      | Inr (opts, serverOpts, libOptions) \<Rightarrow>
          (let server = server_New serverOpts
           in case pr_GetConfig env of
                Inl err \<Rightarrow> Inl (Wrapf ''loading host-cluster rest config: %w'' [] err)
              | Inr hostConfig \<Rightarrow>
                  (case pr_NewManager env hostConfig of
                     Inl err \<Rightarrow> Inl (Wrapf ''building manager: %w'' [] err)
                   | Inr (mgrClient, complete) \<Rightarrow>
                       (case aggregator_Setup K complete mgrClient (Some ()) opts of
                          Inl err \<Rightarrow> Inl (Wrapf ''setting up controllers: %w'' [] err)
                        | Inr controller \<Rightarrow> Inr (controller, server)))))"

text \<open>
  Manager and server then run in an \<open>errgroup\<close>: the result is the first error, in the order in which
  they end.
\<close>

datatype runner = Manager_runner | Server_runner

fun run_group :: "(runner \<times> go_error option) list \<Rightarrow> go_error option" where
  "run_group [] = None"
| "run_group ((r, None) # rs) = run_group rs"
| "run_group ((r, Some err) # rs) =
     Some (case r of Manager_runner \<Rightarrow> Wrapf ''running manager: %w'' [] err
           | Server_runner \<Rightarrow> Wrapf ''running aggregated API server: %w'' [] err)"

text \<open>\<open>main\<close> of both commands: an error is printed and the exit code is one. \<open>'e\<close> is the text of an error.\<close>

definition main_exit :: "(go_error \<Rightarrow> 'e) \<Rightarrow> go_error option \<Rightarrow> 'e option \<times> nat" where
  "main_exit text_of err = (case err of None \<Rightarrow> (None, 0) | Some e \<Rightarrow> (Some (text_of e), 1))"

text \<open>\<open>run\<close> of \<open>cmd/operator\<close>, up to the controller it then runs.\<close>

definition no_operator_options :: "'w operator_options" where
  "no_operator_options =
     \<lparr>oo_Namespace = '''', oo_ServiceAccount = '''', oo_GetAggregatedAPI = None, oo_Apply = None, oo_Update = None,
      oo_Delete = None\<rparr>"

definition operator_command ::
  "('z, 'cfg, ('w, 'u) manager) process \<Rightarrow> string list \<Rightarrow> 'w operator result" where
  "operator_command env args =
     (case parse_command_line
             (map (\<lambda>(n, f). (n, on_first f)) (snd (operator_RegisterFlags no_operator_options)) @
              map (\<lambda>(n, f). (n, on_second f)) (pr_libFlags env))
             args (fst (operator_RegisterFlags no_operator_options), pr_libOptions env) of
        Inl err \<Rightarrow> Inl err
      | Inr (opts, libOptions) \<Rightarrow>
          (case pr_GetConfig env of
             Inl err \<Rightarrow> Inl (Wrapf ''loading rest config: %w'' [] err)
           | Inr hostConfig \<Rightarrow>
               (case pr_NewManager env hostConfig of
                  Inl err \<Rightarrow> Inl (Wrapf ''building manager: %w'' [] err)
                | Inr mgr \<Rightarrow>
                    (case operator_Setup mgr opts of
                       Inl err \<Rightarrow> Inl (Wrapf ''setting up controllers: %w'' [] err)
                     | Inr c \<Rightarrow> Inr c))))"

text \<open>
  All of \<open>run\<close>, with what the manager's \<open>Start\<close> returns when it ends for a controller; for the other
  command, with the runners in the order in which they end.
\<close>

definition operator_main ::
  "('z, 'cfg, ('w, 'u) manager) process \<Rightarrow> ('w operator \<Rightarrow> go_error option) \<Rightarrow> string list \<Rightarrow> go_error option" where
  "operator_main env start args =
     (case operator_command env args of
        Inl err \<Rightarrow> Some err
      | Inr c \<Rightarrow> map_option (Wrapf ''running manager: %w'' []) (start c))"

definition aggregator_main ::
  "('w, 'h, 'c) k8s_libs
     \<Rightarrow> ('z, 'cfg, 'w host_client \<times> (('w, 'h, 'c) Controller \<Rightarrow> go_error option)) process
     \<Rightarrow> (('w, 'h, 'c) Controller \<Rightarrow> ('w, 'h, 'd) server \<Rightarrow> (runner \<times> go_error option) list) \<Rightarrow> string list \<Rightarrow> go_error option" where
  "aggregator_main K env ends args =
     (case aggregator_command K env args of
        Inl err \<Rightarrow> Some err
      | Inr (controller, server) \<Rightarrow> run_group (ends controller server))"

section \<open>Lemmas\<close>

text \<open>A process exits with zero exactly when it was put together and everything it ran ended without an error.\<close>

lemma aggregator_exit:
  "snd (main_exit text_of (aggregator_main K env ends args)) = 0 \<longleftrightarrow>
     (\<exists>ctl srv. aggregator_command K env args = Inr (ctl, srv) \<and> (\<forall>(r, err) \<in> set (ends ctl srv). err = None))"
proof -
  have "run_group rs = None \<longleftrightarrow> (\<forall>(r, err) \<in> set rs. err = None)" for rs
    by (induction rs rule: run_group.induct) auto
  note ended = this [symmetric]
  show ?thesis unfolding ended by (auto simp: main_exit_def aggregator_main_def split: sum.splits option.splits)
qed

lemma operator_exit:
  "snd (main_exit text_of (operator_main env start args)) = 0 \<longleftrightarrow> (\<exists>c. operator_command env args = Inr c \<and> start c = None)"
  by (auto simp: main_exit_def operator_main_def split: sum.splits option.splits)

lemma resync_ticks_steps: "(server_step lib parse)\<^sup>*\<^sup>* s (fst (resync_ticks lib parse es s w))"
proof (induction lib parse es s w rule: resync_ticks.induct)
  case (3 lib parse es s w)
  obtain s' w' where r: "resync lib parse s w = (s', w')" by fastforce
  from step_resync [OF r] 3 [OF r [symmetric]] r show ?case by (simp add: converse_rtranclp_into_rtranclp)
qed simp_all


text \<open>Each argument of a child sets its option.\<close>

lemma child_flag:
  fixes opts :: "('w, 'h, 'c) aggregator_options"
  shows "flag_Parse (aggregator_flags env) (''--aggregated-api'' # v # args) (opts, rest) =
      flag_Parse (aggregator_flags env) args (opts\<lparr>ao_AggregatedAPI := v\<rparr>, rest)"
    "flag_Parse (aggregator_flags env) (''--namespace'' # v # args) (opts, rest) =
      flag_Parse (aggregator_flags env) args (opts\<lparr>ao_Namespace := v\<rparr>, rest)"
    "flag_Parse (aggregator_flags env) (''--url'' # v # args) (opts, rest) =
      flag_Parse (aggregator_flags env) args (opts\<lparr>ao_URL := v\<rparr>, rest)"
  using flag_Parse_long [of "''aggregated-api''" "aggregator_flags env" _ v "(opts, rest)" _ args]
    flag_Parse_long [of "''namespace''" "aggregator_flags env" _ v "(opts, rest)" _ args]
    flag_Parse_long [of "''url''" "aggregator_flags env" _ v "(opts, rest)" _ args]
  by (simp_all add: aggregator_flags_def aggregator_RegisterFlags_def on_first_def StringVar_def)

lemma child_interval_flag:
  fixes opts :: "('w, 'h, 'c) aggregator_options"
  assumes "- (2 ^ 63) \<le> d" and "d < 2 ^ 63"
  shows "flag_Parse (aggregator_flags env) (''--resync-interval'' # Duration_String d # args) (opts, sopts, z) =
      flag_Parse (aggregator_flags env) args (opts, sopts\<lparr>opt_ResyncInterval := d\<rparr>, z)"
  using flag_Parse_long [of "''resync-interval''" "aggregator_flags env" _ "Duration_String d" "(opts, sopts, z)" _ args]
    ParseDuration_String [OF assms]
  by (simp add: aggregator_flags_def aggregator_RegisterFlags_def options_RegisterFlags_def on_first_def on_second_def
      DurationVar_def)

text \<open>The options a child ends up with.\<close>

definition child_aggregator_options :: "'v operator \<Rightarrow> AggregatedAPI \<Rightarrow> ('w, 'h, 'c) aggregator_options" where
  "child_aggregator_options op aa =
     no_aggregator_options\<lparr>ao_AggregatedAPI := aa_name aa, ao_Namespace := aa_namespace aa,
       ao_URL := sprintf ''https://%s.%s.svc:443'' [childName aa, op_Namespace op]\<rparr>"

definition child_server_options :: "AggregatedAPI \<Rightarrow> server_options" where
  "child_server_options aa =
     (let o' = options_defaults no_server_options
      in case sp_ResyncInterval (aa_Spec aa) of None \<Rightarrow> o' | Some d \<Rightarrow> o'\<lparr>opt_ResyncInterval := d\<rparr>)"

definition interval_ok :: "AggregatedAPI \<Rightarrow> bool" where
  "interval_ok aa = (case sp_ResyncInterval (aa_Spec aa) of None \<Rightarrow> True | Some d \<Rightarrow> - (2 ^ 63) \<le> d \<and> d < 2 ^ 63)"

lemma parse_childArgs:
  assumes "interval_ok aa"
  shows "flag_Parse (aggregator_flags env) (childArgs op aa)
      (fst (aggregator_RegisterFlags no_aggregator_options), fst (options_RegisterFlags no_server_options), z) =
    Inr (child_aggregator_options op aa :: ('w, 'h, 'c) aggregator_options, child_server_options aa, z)"
proof -
  let ?o = "fst (aggregator_RegisterFlags no_aggregator_options) :: ('w, 'h, 'c) aggregator_options"
  have o: "?o\<lparr>ao_AggregatedAPI := aa_name aa, ao_Namespace := aa_namespace aa,
      ao_URL := sprintf ''https://%s.%s.svc:443'' [childName aa, op_Namespace op]\<rparr> = child_aggregator_options op aa"
    by (simp add: child_aggregator_options_def aggregator_RegisterFlags_def aggregator_defaults_def no_aggregator_options_def)
  show ?thesis
  proof (cases "sp_ResyncInterval (aa_Spec aa)")
    case None
    with o show ?thesis
      by (simp add: childArgs_def child_flag child_server_options_def options_RegisterFlags_def del: flag_Parse.simps(3))
  next
    case (Some d)
    with assms have d: "- (2 ^ 63) \<le> d" "d < 2 ^ 63" by (simp_all add: interval_ok_def)
    from Some o show ?thesis
      by (simp add: childArgs_def child_flag child_interval_flag [OF d] child_server_options_def options_RegisterFlags_def
          del: flag_Parse.simps(3))
  qed
qed

lemma aggregator_command_child:
  fixes env :: "('z, 'cfg, 'w host_client \<times> (('w, 'h, 'c) Controller \<Rightarrow> go_error option)) process"
  assumes "interval_ok aa" and "distinct (map fst (aggregator_flags env :: (string \<times> (('w, 'h, 'c) aggregator_options \<times> server_options \<times> 'z) flag) list))"
    and "pr_GetConfig env = Inr cfg" and "pr_NewManager env cfg = Inr (client, \<lambda>_. None)"
    and "aa_name aa \<noteq> ''''" and "aa_namespace aa \<noteq> ''''"
  shows "aggregator_command K env (childArgs op aa) =
    Inr (\<lparr>co_AggregatedAPI = aa_name aa, co_Namespace = aa_namespace aa, co_Client = client,
        co_URL = sprintf ''https://%s.%s.svc:443'' [childName aa, op_Namespace op],
        co_DiscoveryClient = k8s_NewDiscoveryClientForConfig K, co_DynamicClient = k8s_NewDynamicForConfig K\<rparr>,
      server_New (child_server_options aa))"
proof -
  have "aggregator_Setup K (\<lambda>_. None) client (Some ()) (child_aggregator_options op aa) =
      Inr \<lparr>co_AggregatedAPI = aa_name aa, co_Namespace = aa_namespace aa, co_Client = client,
        co_URL = sprintf ''https://%s.%s.svc:443'' [childName aa, op_Namespace op],
        co_DiscoveryClient = k8s_NewDiscoveryClientForConfig K, co_DynamicClient = k8s_NewDynamicForConfig K\<rparr>"
    using assms(5,6)
    by (simp add: aggregator_Setup_def NewController_def aggregator_validate_def aggregator_defaults_def
        child_aggregator_options_def no_aggregator_options_def Let_def del: sprintf.simps)
  then show ?thesis
    using assms(2-4) by (simp add: aggregator_command_def parse_command_line_def parse_childArgs [OF assms(1)])
qed

end
