(* ===== verification/Codec.thy ===== *)
theory Codec
  imports Discovery
begin

text \<open>
  \<open>pkg/apiserver/scheme.go\<close>, \<open>protobuf.go\<close> and the convertor of \<open>install.go\<close>: how requests and
  responses are encoded although the server knows its objects as unstructured data only. The codec
  factory, the protobuf serializer, the typed scheme, the unstructured converter and
  \<open>encoding/json\<close> are parameters.
\<close>

section \<open>Definitions\<close>

text \<open>\<open>obj.(runtime.Unstructured)\<close>.\<close>

definition is_Unstructured :: "runtime_object \<Rightarrow> bool" where
  "is_Unstructured obj = (case obj of Unstructured u \<Rightarrow> True | UnstructuredList l \<Rightarrow> True | TypedObject t m \<Rightarrow> False)"

subsection \<open>Serializers\<close>

record ('s, 'st) SerializerInfo =
  si_MediaType :: string
  si_Serializer :: 's
  si_StrictSerializer :: 's
  si_StreamSerializer :: 'st

definition SupportedMediaTypes ::
  "string \<Rightarrow> 's \<Rightarrow> 'st \<Rightarrow> ('s, 'st) SerializerInfo list \<Rightarrow> ('s, 'st) SerializerInfo list" where
  "SupportedMediaTypes ContentTypeProtobuf proto protoStream infos =
     map (\<lambda>info. if si_MediaType info \<noteq> ContentTypeProtobuf then info
                 else info\<lparr>si_Serializer := proto, si_StrictSerializer := proto,
                        si_StreamSerializer := protoStream\<rparr>) infos"

text \<open>An encoder turns an object into bytes; \<open>en_Identifier\<close> names it.\<close>

record encoder =
  en_Identifier :: string
  en_Encode :: "runtime_object \<Rightarrow> string result"

definition splitEncoder :: "encoder \<Rightarrow> encoder \<Rightarrow> encoder" where
  "splitEncoder unstructured typed =
     \<lparr>en_Identifier = ''split:'' @ en_Identifier typed,
      en_Encode = (\<lambda>obj. if is_Unstructured obj then en_Encode unstructured obj else en_Encode typed obj)\<rparr>"

definition EncoderForVersion ::
  "(encoder \<Rightarrow> 'gv \<Rightarrow> encoder) \<Rightarrow> encoder \<Rightarrow> 'gv \<Rightarrow> encoder" where
  "EncoderForVersion codecEncoderForVersion enc gv = splitEncoder enc (codecEncoderForVersion enc gv)"

text \<open>
  A decoder returns an object, the kind it has found and an error, any of which may be nil. \<open>into\<close>
  is the object to decode into.
\<close>

type_synonym decoder =
  "string \<Rightarrow> group_version_kind option \<Rightarrow> runtime_object option
     \<Rightarrow> runtime_object option \<times> group_version_kind option \<times> go_error option"

record json_lib =
  js_Unmarshal :: "string \<Rightarrow> (string \<rightharpoonup> json) result"
  js_Marshal :: "(string \<rightharpoonup> json) \<Rightarrow> string result"

record missing_lib =
  ms_IsMissingKind :: "go_error \<Rightarrow> bool"
  ms_IsMissingVersion :: "go_error \<Rightarrow> bool"
  ms_gvString :: "group_version \<Rightarrow> string"

definition with_gvk :: "missing_lib \<Rightarrow> group_version_kind \<Rightarrow> (string \<rightharpoonup> json) \<Rightarrow> (string \<rightharpoonup> json)" where
  "with_gvk M defaults patched =
     patched(''apiVersion'' \<mapsto> JStr (ms_gvString M (GVK_GroupVersion defaults)), ''kind'' \<mapsto> JStr (gvk_kind defaults))"

definition defaultingDecoder :: "json_lib \<Rightarrow> missing_lib \<Rightarrow> decoder \<Rightarrow> decoder" where
  "defaultingDecoder J M delegate data defaults into =
     (case delegate data defaults into of (obj, gvk, err) \<Rightarrow>
       (case (err, defaults) of
          (None, _) \<Rightarrow> (obj, gvk, err)
        | (_, None) \<Rightarrow> (obj, gvk, err)
        | (Some e, Some d) \<Rightarrow>
            if GVK_Empty d then (obj, gvk, err)
            else if \<not> ms_IsMissingKind M e \<and> \<not> ms_IsMissingVersion M e then (obj, gvk, err)
            else (case js_Unmarshal J data of
                    Inl jsonErr \<Rightarrow> (obj, gvk, Some jsonErr)
                  | Inr patched \<Rightarrow>
                      (case js_Marshal J (with_gvk M d patched) of
                         Inl marshalErr \<Rightarrow> (obj, gvk, err)
                       | Inr data' \<Rightarrow> delegate data' defaults into))))"

subsection \<open>Protobuf\<close>

text \<open>What the libraries provide: the protobuf serializer over the typed scheme, and the converter.\<close>

record ('t) proto_lib =
  pl_Decode :: "string \<Rightarrow> group_version_kind option \<Rightarrow> 't result \<times> group_version_kind option"
  pl_Encode :: "'t \<Rightarrow> string result"
  pl_EncodeObject :: "runtime_object \<Rightarrow> string result"
  pl_New :: "group_version_kind \<Rightarrow> bool"
  pl_NotRegistered :: "group_version_kind \<Rightarrow> go_error"
  pl_ToUnstructured :: "'t \<Rightarrow> unstructured result"
  pl_FromUnstructured :: "unstructured \<Rightarrow> group_version_kind \<Rightarrow> 't result"
  pl_gvkString :: "group_version_kind option \<Rightarrow> string"

text \<open>
  \<open>into\<close> only decides which object receives the content. \<open>SetGroupVersionKind(*gvk)\<close> panics on a
  nil kind.
\<close>

definition proto_Decode ::
  "'t proto_lib \<Rightarrow> string \<Rightarrow> group_version_kind option \<Rightarrow> unstructured result \<times> group_version_kind option" where
  "proto_Decode P data defaults =
     (case pl_Decode P data defaults of
        (Inl err, gvk) \<Rightarrow> (Inl err, gvk)
      | (Inr typed, gvk) \<Rightarrow>
          (case pl_ToUnstructured P typed of
             Inl err \<Rightarrow> (Inl (Wrapf ''converting %s to unstructured: %w'' [pl_gvkString P gvk] err), gvk)
           | Inr content \<Rightarrow>
               (case gvk of
                  None \<Rightarrow> (Inl (New ''runtime error: invalid memory address or nil pointer dereference''), gvk)
                | Some k \<Rightarrow> (Inr (content\<lparr>u_gvk := k\<rparr>), gvk))))"

text \<open>Encoding of an unstructured object; \<open>FromUnstructured\<close> fills a new object of the kind.\<close>

definition proto_Encode :: "'t proto_lib \<Rightarrow> runtime_object \<Rightarrow> string result" where
  "proto_Encode P obj =
     (case obj of
        Unstructured u \<Rightarrow>
          (let gvk = u_gvk u
           in if \<not> pl_New P gvk then Inl (pl_NotRegistered P gvk)
              else (case pl_FromUnstructured P u gvk of
                      Inl err \<Rightarrow> Inl (Wrapf ''converting %s from unstructured: %w'' [pl_gvkString P (Some gvk)] err)
                    | Inr typed \<Rightarrow> pl_Encode P typed))
      | _ \<Rightarrow> pl_EncodeObject P obj)"

definition proto_Identifier :: "string \<Rightarrow> string" where
  "proto_Identifier inner = ''protoRoundTrip:'' @ inner"

text \<open>
  The serializer with the wrapped protobuf serializer, and the two ways it is made: over the library's
  serializer with a type prefix, and over the raw one for streams. Both use the typed scheme twice, to
  create objects and to find their kinds.
\<close>

record 'p protoRoundTripSerializer =
  prs_proto :: 'p

datatype framer = LengthDelimitedFramer

record 's StreamSerializerInfo =
  ssi_EncodesAsText :: bool
  ssi_Serializer :: 's
  ssi_Framer :: framer

definition newProtoRoundTripSerializer :: "('sch \<Rightarrow> 'sch \<Rightarrow> 'p) \<Rightarrow> 'sch \<Rightarrow> 'p protoRoundTripSerializer" where
  "newProtoRoundTripSerializer NewSerializer typedScheme = \<lparr>prs_proto = NewSerializer typedScheme typedScheme\<rparr>"

definition newProtoRoundTripStreamSerializer ::
  "('sch \<Rightarrow> 'sch \<Rightarrow> 'p) \<Rightarrow> 'sch \<Rightarrow> 'p protoRoundTripSerializer StreamSerializerInfo" where
  "newProtoRoundTripStreamSerializer NewRawSerializer typedScheme =
     \<lparr>ssi_EncodesAsText = False, ssi_Serializer = \<lparr>prs_proto = NewRawSerializer typedScheme typedScheme\<rparr>,
      ssi_Framer = LengthDelimitedFramer\<rparr>"

subsection \<open>Conversion\<close>

text \<open>
  \<open>unstructuredConvertor.Convert\<close> copies the content and keeps a kind the target already has; the
  result is the new value of \<open>out\<close>. Between an object and a list, the library's \<open>setContent\<close> decides.
\<close>

definition Convert :: "unstructured \<Rightarrow> unstructured \<Rightarrow> unstructured" where
  "Convert input out = (if GVK_Empty (u_gvk out) then input else input\<lparr>u_gvk := u_gvk out\<rparr>)"

definition Convert_any ::
  "(runtime_object \<Rightarrow> string) \<Rightarrow> (runtime_object \<Rightarrow> runtime_object \<Rightarrow> runtime_object) \<Rightarrow> runtime_object \<Rightarrow> runtime_object
     \<Rightarrow> runtime_object result" where
  "Convert_any goType setContent input out =
     (if \<not> is_Unstructured input then Inl (New (sprintf ''input type %T is not unstructured'' [goType input]))
      else if \<not> is_Unstructured out then Inl (New (sprintf ''output type %T is not unstructured'' [goType out]))
      else (case (input, out) of
              (Unstructured i, Unstructured o') \<Rightarrow> Inr (Unstructured (Convert i o'))
            | (UnstructuredList i, UnstructuredList o') \<Rightarrow>
                Inr (UnstructuredList (if GVK_Empty (l_gvk o') then i else i\<lparr>l_gvk := l_gvk o'\<rparr>))
            | (i, o') \<Rightarrow> Inr (setContent i o')))"

text \<open>\<open>ConvertToVersion\<close>; \<open>kindFor\<close> is the method of the target, \<open>internal\<close> the internal version.\<close>

definition ConvertToVersion ::
  "string \<Rightarrow> (group_version_kind list \<Rightarrow> group_version_kind option) \<Rightarrow> (group_version_kind \<Rightarrow> string) \<Rightarrow> string
     \<Rightarrow> unstructured \<Rightarrow> unstructured result" where
  "ConvertToVersion internal kindFor gvkString target input =
     (case kindFor [u_gvk input] of
        None \<Rightarrow> Inl (New (sprintf ''%v cannot be converted to target %q'' [gvkString (u_gvk input), target]))
      | Some toGVK \<Rightarrow> if gvk_version toGVK = internal then Inr input else Inr (input\<lparr>u_gvk := toGVK\<rparr>))"

definition ConvertFieldLabel :: "string \<Rightarrow> string \<Rightarrow> (string \<times> string) result" where
  "ConvertFieldLabel label value = Inr (label, value)"

subsection \<open>OpenAPI\<close>

definition unstructured_definition :: string where
  "unstructured_definition = ''k8s.io/apimachinery/pkg/apis/meta/v1/unstructured.Unstructured''"

definition GetDefinitionName :: "ServedResource list \<Rightarrow> string \<Rightarrow> string \<times> (string \<times> json) list" where
  "GetDefinitionName resources name =
     (if name \<noteq> unstructured_definition then (name, [])
      else (name, [(''x-kubernetes-group-version-kind'',
             JArr (map (\<lambda>resource. JObj [(''group'', JStr (gvk_group (sr_Kind resource))),
               (''version'', JStr (gvk_version (sr_Kind resource))), (''kind'', JStr (gvk_kind (sr_Kind resource)))])
               resources))]))"

definition free_form :: json where
  "free_form = JObj [(''type'', JArr [JStr ''object'']), (''x-kubernetes-preserve-unknown-fields'', JBool True)]"

definition unstructuredOpenAPIDefinitions :: "(string \<rightharpoonup> json) \<Rightarrow> (string \<rightharpoonup> json)" where
  "unstructuredOpenAPIDefinitions generated =
     generated(unstructured_definition \<mapsto> free_form,
       ''k8s.io/apimachinery/pkg/apis/meta/v1/unstructured.UnstructuredList'' \<mapsto> free_form)"

section \<open>Specification\<close>

text \<open>
  A delegate that decodes JSON objects which say their kind and version, and reports a missing kind
  for those that do not (the contract of the codec factory for unstructured data), with \<open>build\<close> the
  object made of the fields; \<open>encoding/json\<close> writes an object it has read and completed with the
  kind \<open>d\<close> such that it reads it back.
\<close>

definition complete_json :: "(string \<rightharpoonup> json) \<Rightarrow> bool" where
  "complete_json f \<longleftrightarrow> (\<exists>v k. f ''apiVersion'' = Some (JStr v) \<and> f ''kind'' = Some (JStr k))"

definition json_delegate ::
  "json_lib \<Rightarrow> missing_lib \<Rightarrow> ((string \<rightharpoonup> json) \<Rightarrow> unstructured) \<Rightarrow> group_version_kind \<Rightarrow> decoder \<Rightarrow> bool" where
  "json_delegate J M build d delegate \<longleftrightarrow>
     (\<forall>data defaults into. case js_Unmarshal J data of
        Inl err \<Rightarrow> snd (snd (delegate data defaults into)) \<noteq> None
      | Inr obj_fields \<Rightarrow>
          if complete_json obj_fields
          then delegate data defaults into = (Some (Unstructured (build obj_fields)), Some (u_gvk (build obj_fields)), None)
          else (\<exists>e. snd (snd (delegate data defaults into)) = Some e \<and> ms_IsMissingKind M e)) \<and>
     (\<forall>data obj_fields. js_Unmarshal J data = Inr obj_fields \<longrightarrow>
        (\<exists>data'. js_Marshal J (with_gvk M d obj_fields) = Inr data' \<and>
           js_Unmarshal J data' = Inr (with_gvk M d obj_fields)))"

text \<open>The typed forms and their wire format are faithful for a kind.\<close>

definition proto_faithful :: "'t proto_lib \<Rightarrow> unstructured \<Rightarrow> bool" where
  "proto_faithful P u \<longleftrightarrow>
     pl_New P (u_gvk u) \<and>
     (\<exists>typed data. pl_FromUnstructured P u (u_gvk u) = Inr typed \<and> pl_Encode P typed = Inr data \<and>
        (\<forall>defaults. pl_Decode P data defaults = (Inr typed, Some (u_gvk u))) \<and> pl_ToUnstructured P typed = Inr u)"

lemma json_delegateD:
  assumes "json_delegate J M build d delegate" and "js_Unmarshal J data = Inr f"
  shows "if complete_json f
      then delegate data defaults into = (Some (Unstructured (build f)), Some (u_gvk (build f)), None)
      else (\<exists>e. snd (snd (delegate data defaults into)) = Some e \<and> ms_IsMissingKind M e)"
  using assms(1) [unfolded json_delegate_def, THEN conjunct1, THEN spec, of data, THEN spec, of defaults,
      THEN spec, of into] assms(2) by simp

section \<open>Properties\<close>


text \<open>
  Protobuf is transparent: an unstructured object of a known kind, whose typed form loses nothing,
  is encoded to bytes from which the decoder gives back the same object with the same kind; an
  object of an unknown kind is refused.
\<close>

theorem proto_round_trip:
  "(proto_faithful P u \<longrightarrow>
     (\<exists>data. proto_Encode P (Unstructured u) = Inr data \<and>
        (\<forall>defaults. proto_Decode P data defaults = (Inr u, Some (u_gvk u))))) \<and>
   (\<not> pl_New P (u_gvk u) \<longrightarrow> proto_Encode P (Unstructured u) = Inl (pl_NotRegistered P (u_gvk u)))"
  by (auto simp: proto_faithful_def proto_Encode_def proto_Decode_def Let_def)

text \<open>A delegate for two bodies: the empty object, and the object completed with a kind.\<close>

definition demo_gvk :: group_version_kind where
  "demo_gvk = \<lparr>gvk_group = ''apps'', gvk_version = ''v1'', gvk_kind = ''Deployment''\<rparr>"

definition demo_missing :: missing_lib where
  "demo_missing = \<lparr>ms_IsMissingKind = (\<lambda>e. e = New ''missing kind''), ms_IsMissingVersion = (\<lambda>_. False),
     ms_gvString = (\<lambda>gv. gv_group gv @ ''/'' @ gv_version gv)\<rparr>"

definition demo_json :: json_lib where
  "demo_json = \<lparr>js_Unmarshal = (\<lambda>data. if data = ''{}'' then Inr Map.empty
       else if data = ''{...}'' then Inr (with_gvk demo_missing demo_gvk Map.empty) else Inl (New ''syntax error'')),
     js_Marshal = (\<lambda>_. Inr ''{...}'')\<rparr>"

definition demo_build :: "(string \<rightharpoonup> json) \<Rightarrow> unstructured" where
  "demo_build f = empty_unstructured\<lparr>u_gvk := demo_gvk\<rparr>"

definition demo_delegate :: decoder where
  "demo_delegate data defaults into =
     (if data = ''{}'' then (None, None, Some (New ''missing kind''))
      else if data = ''{...}'' then (Some (Unstructured (empty_unstructured\<lparr>u_gvk := demo_gvk\<rparr>)), Some demo_gvk, None)
      else (None, None, Some (New ''syntax error'')))"

lemma demo_json_delegate: "json_delegate demo_json demo_missing demo_build demo_gvk demo_delegate"
proof -
  have "\<not> complete_json Map.empty" and "complete_json (with_gvk M d f)"
    and "with_gvk M d (with_gvk M d f) = with_gvk M d f" for M d f
    by (simp_all add: complete_json_def with_gvk_def)
  then show ?thesis
    by (simp add: json_delegate_def demo_json_def demo_delegate_def demo_build_def) (simp add: demo_missing_def)
qed


definition demo_proto :: "unstructured proto_lib" where
  "demo_proto = \<lparr>pl_Decode = (\<lambda>data defaults. (Inr (demo_build Map.empty), Some demo_gvk)), pl_Encode = (\<lambda>t. Inr ''wire''),
     pl_EncodeObject = (\<lambda>obj. Inr ''typed''), pl_New = (\<lambda>gvk. gvk = demo_gvk),
     pl_NotRegistered = (\<lambda>gvk. New ''no kind is registered''), pl_ToUnstructured = Inr,
     pl_FromUnstructured = (\<lambda>u gvk. Inr u), pl_gvkString = (\<lambda>_. ''apps/v1, Kind=Deployment'')\<rparr>"

theorem proto_round_trip_witness:
  "\<exists>data. proto_Encode demo_proto (Unstructured (demo_build Map.empty)) = Inr data \<and>
     proto_Decode demo_proto data None = (Inr (demo_build Map.empty), Some demo_gvk)"
proof -
  have "proto_faithful demo_proto (demo_build Map.empty)"
    by (simp add: proto_faithful_def demo_proto_def demo_build_def)
  with proto_round_trip [of demo_proto "demo_build Map.empty"] show ?thesis by (auto simp: demo_build_def)
qed

end
