(* ===== verification/Child.thy ===== *)
theory Child
  imports Aggregator
begin

text \<open>
  The api-aggregator process while it runs: its controller makes one reconcile pass at a time, and
  meanwhile the resync loop of the server ticks and the clusters change. A pass is here what
  \<open>pkg/controllers/api-aggregator\<close> and \<open>SetCluster\<close> make of it: a sequence of steps, cut wherever the
  server's mutex is released, so that a resync can come between any two of them. In particular
  \<open>SetCluster\<close> asks the new member what it serves before it takes the mutex.
\<close>

section \<open>Definitions\<close>

text \<open>\<open>registerCluster\<close> up to the point where \<open>SetCluster\<close> takes the mutex, and the rest of \<open>SetCluster\<close>.\<close>

definition registerCluster_begin ::
  "group_parser \<Rightarrow> ('w, 'h, 'c) k8s_libs \<Rightarrow> ('w, 'h, 'c) Controller \<Rightarrow> string \<Rightarrow> AggregatedCluster
     \<Rightarrow> ('w, ('w, 'h) memberCluster) io" where
  "registerCluster_begin parse K c name cluster w =
     (case hc_GetSecret (co_Client c) (co_Namespace c) name w of
        (Inl err, w') \<Rightarrow> (Inl (Wrapf ''getting kubeconfig Secret: %w'' [] err), w')
      | (Inr secret, w') \<Rightarrow>
          (case restConfigFromSecret K secret of
             Inl err \<Rightarrow> (Inl (Wrapf ''loading kubeconfig: %w'' [] err), w')
           | Inr config \<Rightarrow>
               (case co_DynamicClient c config of
                  Inl err \<Rightarrow> (Inl (Wrapf ''building dynamic client: %w'' [] err), w')
                | Inr dynamicClient \<Rightarrow>
                    (case co_DiscoveryClient c config of
                       Inl err \<Rightarrow> (Inl (Wrapf ''building discovery client: %w'' [] err), w')
                     | Inr discoveryClient \<Rightarrow>
                         (case member_resolve parse \<lparr>mc_client = dynamicClient, mc_discovery = discoveryClient,
                                 mc_selectors = ac_APIs cluster, mc_resources = []\<rparr> w' of
                            ((Inl err, member), w'') \<Rightarrow>
                              (Inl (Wrapf ''registering on the server: %w'' [] (Wrapf ''resolving cluster %q: %w'' [name] err)), w'')
                          | ((Inr changed, member), w'') \<Rightarrow> (Inr member, w''))))))"

definition SetCluster_locked ::
  "('w, 'h, 'd) server_libs \<Rightarrow> ('w, 'h, 'd) server \<Rightarrow> string \<Rightarrow> ('w, 'h) memberCluster
     \<Rightarrow> go_error option \<times> ('w, 'h, 'd) server" where
  "SetCluster_locked lib s name member = rebuild lib (s\<lparr>sv_members := AList.update name member (sv_members s)\<rparr>)"

text \<open>
  Where a pass is: the object it works on, the clusters or names left in the current loop, and the
  failures collected so far. \<open>Returned\<close> has the error \<open>Reconcile\<close> returns.
\<close>

datatype ('w, 'h) phase =
    Fetch
  | Register AggregatedAPI "AggregatedCluster list" "go_error list"
  | Install AggregatedAPI string "('w, 'h) memberCluster" "AggregatedCluster list" "go_error list"
  | Names AggregatedAPI "go_error list"
  | Remove AggregatedAPI "string list" "go_error list"
  | Publish AggregatedAPI "go_error list"
  | Commit AggregatedAPI AggregatedAPI "go_error option"
  | Returned "AggregatedAPI option" "go_error option"

type_synonym ('w, 'h, 'd) child = "('w, 'h) phase \<times> ('w, 'h, 'd) server \<times> 'w"

text \<open>The end of \<open>run\<close>: conditions, URL and Secret.\<close>

definition report ::
  "('w, 'h, 'd) server_libs \<Rightarrow> ('w, 'h, 'c) k8s_libs \<Rightarrow> ('w, 'h, 'c) Controller \<Rightarrow> ('w, 'h, 'd) server \<Rightarrow> AggregatedAPI
     \<Rightarrow> go_error list \<Rightarrow> 'w \<Rightarrow> (go_error option \<times> AggregatedAPI) \<times> 'w" where
  "report lib K c s aa failures w =
     (let err = errors_Join (map Some failures);
          aa1 = (case err of
              Some e \<Rightarrow> setConditionReady K False ''ClusterRegistrationFailed'' (error_text (k8s_statusText K) e) aa
            | None \<Rightarrow> setConditionReady K True ''ClustersRegistered'' ''all clusters registered'' aa);
          aa2 = aa1\<lparr>aa_Status := (aa_Status aa1)\<lparr>sts_URL := reconciler_url c s\<rparr>\<rparr>
      in case applyKubeconfigSecret lib K c s aa2 w of ((secretErr, aa3), w') \<Rightarrow>
           (((case secretErr of None \<Rightarrow> err
              | Some e \<Rightarrow> errors_Join [err, Some (Wrapf ''applying kubeconfig Secret: %w'' [] e)]), aa3), w'))"

text \<open>One step of a pass.\<close>

fun pass_step ::
  "('w, 'h, 'd) server_libs \<Rightarrow> group_parser \<Rightarrow> ('w, 'h, 'c) k8s_libs \<Rightarrow> ('w, 'h, 'c) Controller
     \<Rightarrow> ('w, 'h, 'd) child \<Rightarrow> ('w, 'h, 'd) child" where
  "pass_step lib parse K c (Fetch, s, w) =
     (case fetchAggregatedAPI c w of
        (Inl err, w') \<Rightarrow> (Returned None (Some err), s, w')
      | (Inr None, w') \<Rightarrow> (Returned None None, s, w')
      | (Inr (Some aa), w') \<Rightarrow> (Register aa (sp_Clusters (aa_Spec aa)) [], s, w'))"
| "pass_step lib parse K c (Register aa [] fs, s, w) = (Names aa fs, s, w)"
| "pass_step lib parse K c (Register aa (x # cs) fs, s, w) =
     (case registerCluster_begin parse K c (cluster_name x) x w of
        (Inl err, w') \<Rightarrow> (Register aa cs (fs @ [Wrapf ''cluster %q: %w'' [cluster_name x] err]), s, w')
      | (Inr member, w') \<Rightarrow> (Install aa (cluster_name x) member cs fs, s, w'))"
| "pass_step lib parse K c (Install aa name member cs fs, s, w) =
     (case SetCluster_locked lib s name member of
        (None, s') \<Rightarrow> (Register aa cs fs, s', w)
      | (Some err, s') \<Rightarrow>
          (Register aa cs (fs @ [Wrapf ''cluster %q: %w'' [name] (Wrapf ''registering on the server: %w'' [] err)]), s', w))"
| "pass_step lib parse K c (Names aa fs, s, w) = (Remove aa (server_Clusters s) fs, s, w)"
| "pass_step lib parse K c (Remove aa [] fs, s, w) = (Publish aa fs, s, w)"
| "pass_step lib parse K c (Remove aa (n # ns) fs, s, w) =
     (if n \<in> set (spec_names aa) then (Remove aa ns fs, s, w)
      else (case RemoveCluster lib s n of
        (None, s') \<Rightarrow> (Remove aa ns fs, s', w)
      | (Some err, s') \<Rightarrow> (Remove aa ns (fs @ [Wrapf ''removing cluster %q: %w'' [n] err]), s', w)))"
| "pass_step lib parse K c (Publish aa fs, s, w) =
     (case report lib K c s aa fs w of ((err, aa'), w') \<Rightarrow> (Commit aa aa' err, s, w'))"
| "pass_step lib parse K c (Commit old aa err, s, w) =
     (case commitStatus c old aa w of (commitErr, w') \<Rightarrow> (Returned (Some old) (errors_Join [err, commitErr]), s, w'))"
| "pass_step lib parse K c (Returned oaa err, s, w) = (Returned oaa err, s, w)"

definition finished :: "('w, 'h, 'd) child \<Rightarrow> bool" where
  "finished x = (case fst x of Returned oaa err \<Rightarrow> True | _ \<Rightarrow> False)"

text \<open>
  The process: a step of the pass; a tick of the resync loop, which holds the mutex throughout; a
  change in the clusters; the next pass.
\<close>

inductive others :: "('w, 'h, 'd) server_libs \<Rightarrow> group_parser \<Rightarrow> ('w, 'h, 'd) child \<Rightarrow> ('w, 'h, 'd) child \<Rightarrow> bool"
  for lib parse where
  tick: "resync lib parse s w = (s', w') \<Longrightarrow> others lib parse (ph, s, w) (ph, s', w')"
| clusters_change: "others lib parse (ph, s, w) (ph, s, w')"

definition own :: "('w, 'h, 'd) server_libs \<Rightarrow> group_parser \<Rightarrow> ('w, 'h, 'c) k8s_libs \<Rightarrow> ('w, 'h, 'c) Controller
     \<Rightarrow> ('w, 'h, 'd) child \<Rightarrow> ('w, 'h, 'd) child \<Rightarrow> bool" where
  "own lib parse K c x y \<longleftrightarrow> \<not> finished x \<and> y = pass_step lib parse K c x"

inductive child_step :: "('w, 'h, 'd) server_libs \<Rightarrow> group_parser \<Rightarrow> ('w, 'h, 'c) k8s_libs \<Rightarrow> ('w, 'h, 'c) Controller
     \<Rightarrow> ('w, 'h, 'd) child \<Rightarrow> ('w, 'h, 'd) child \<Rightarrow> bool"
  for lib parse K c where
  child_own: "own lib parse K c x y \<Longrightarrow> child_step lib parse K c x y"
| child_others: "others lib parse x y \<Longrightarrow> child_step lib parse K c x y"
| next_pass: "child_step lib parse K c (Returned oaa err, s, w) (Fetch, s, w)"

section \<open>Specification\<close>

text \<open>The object of the pass.\<close>

definition phase_api :: "('w, 'h) phase \<Rightarrow> AggregatedAPI option" where
  "phase_api ph = (case ph of Fetch \<Rightarrow> None | Register aa cs fs \<Rightarrow> Some aa | Install aa n m cs fs \<Rightarrow> Some aa
     | Names aa fs \<Rightarrow> Some aa | Remove aa ns fs \<Rightarrow> Some aa | Publish aa fs \<Rightarrow> Some aa | Commit aa aa' err \<Rightarrow> Some aa
     | Returned oaa err \<Rightarrow> oaa)"

definition fetched :: "('w, 'h, 'c) Controller \<Rightarrow> 'w \<Rightarrow> AggregatedAPI option" where
  "fetched c w = (case fst (fetchAggregatedAPI c w) of Inl err \<Rightarrow> None | Inr oaa \<Rightarrow> oaa)"

text \<open>
  A rebuild of the server would fail: its members contradict each other, or the library refuses what
  they serve.
\<close>

definition blocked :: "('w, 'h, 'd) server_libs \<Rightarrow> ('w, 'h, 'd) server \<Rightarrow> bool" where
  "blocked lib s \<longleftrightarrow> \<not> consistent (member_offers s) \<or>
     (\<exists>d e. newGenericServer lib (opt_Hostname (sv_opts s)) (opt_Port (sv_opts s))
        (union_spec (lib_gvrString lib) (member_offers s)) (map (\<lambda>(n, m). (n, mc_client m)) (sv_members s)) d = Inl e)"

definition synced :: "('w, 'h, 'd) server_libs \<Rightarrow> ('w, 'h, 'd) server \<Rightarrow> bool" where
  "synced lib s \<longleftrightarrow> in_sync lib s \<or> blocked lib s"

text \<open>What holds of the server at each point of a pass.\<close>

definition resolved :: "group_parser \<Rightarrow> ('w, 'h) memberCluster \<Rightarrow> bool" where
  "resolved parse m \<longleftrightarrow> (\<exists>client disc selectors w changed w'.
     member_resolve parse \<lparr>mc_client = client, mc_discovery = disc, mc_selectors = selectors, mc_resources = []\<rparr> w =
       ((Inr changed, m), w'))"

definition covered :: "('w, 'h, 'd) server_libs \<Rightarrow> AggregatedCluster list \<Rightarrow> go_error list \<Rightarrow> ('w, 'h, 'd) server \<Rightarrow> bool" where
  "covered lib xs fs s \<longleftrightarrow>
     (fs = [] \<longrightarrow> set (map cluster_name xs) \<subseteq> set (server_Clusters s) \<and> (xs \<noteq> [] \<longrightarrow> synced lib s))"

definition serves :: "('w, 'h, 'd) server_libs \<Rightarrow> AggregatedAPI \<Rightarrow> bool \<Rightarrow> ('w, 'h, 'd) server \<Rightarrow> bool" where
  "serves lib aa ok s \<longleftrightarrow> set (server_Clusters s) \<subseteq> set (spec_names aa) \<and>
     (ok \<longrightarrow> set (spec_names aa) \<subseteq> set (server_Clusters s) \<and> synced lib s)"

definition phase_ok ::
  "('w, 'h, 'd) server_libs \<Rightarrow> group_parser \<Rightarrow> ('w, 'h) phase \<Rightarrow> ('w, 'h, 'd) server \<Rightarrow> bool" where
  "phase_ok lib parse ph s = (case ph of
       Fetch \<Rightarrow> True
     | Register aa cs fs \<Rightarrow> \<exists>xs. sp_Clusters (aa_Spec aa) = xs @ cs \<and> covered lib xs fs s
     | Install aa name m cs fs \<Rightarrow>
         \<exists>xs x. sp_Clusters (aa_Spec aa) = xs @ x # cs \<and> name = cluster_name x \<and> resolved parse m \<and> covered lib xs fs s
     | Names aa fs \<Rightarrow> covered lib (sp_Clusters (aa_Spec aa)) fs s
     | Remove aa ns fs \<Rightarrow> set (server_Clusters s) \<subseteq> set (spec_names aa) \<union> set ns \<and>
         (fs = [] \<longrightarrow> set (spec_names aa) \<subseteq> set (server_Clusters s) \<and> (synced lib s \<or> \<not> set ns \<subseteq> set (spec_names aa)))
     | Publish aa fs \<Rightarrow> serves lib aa (fs = []) s
     | Commit aa aa' err \<Rightarrow> serves lib aa (err = None) s
     | Returned oaa err \<Rightarrow> (case oaa of None \<Rightarrow> True | Some aa \<Rightarrow> serves lib aa (err = None) s))"

definition child_ok ::
  "('w, 'h, 'd) server_libs \<Rightarrow> group_parser \<Rightarrow> server_options \<Rightarrow> ('w, 'h, 'd) child \<Rightarrow> bool" where
  "child_ok lib parse opts x =
     (case x of (ph, s, w) \<Rightarrow> (server_step lib parse)\<^sup>*\<^sup>* (server_New opts) s \<and> phase_ok lib parse ph s)"

section \<open>Lemmas\<close>

subsection \<open>The pieces of a pass\<close>

lemma registerCluster_split:
  "registerCluster lib parse K c name cluster s w =
     (case registerCluster_begin parse K c name cluster w of
        (Inl err, w') \<Rightarrow> ((Some err, s), w')
      | (Inr member, w') \<Rightarrow> (case SetCluster_locked lib s name member of (err, s') \<Rightarrow>
          ((map_option (Wrapf ''registering on the server: %w'' []) err, s'), w')))"
  by (auto simp: registerCluster_def registerCluster_begin_def SetCluster_def SetCluster_locked_def
      split: sum.splits prod.splits option.splits)

lemma begin_resolved:
  "registerCluster_begin parse K c name cluster w = (Inr member, w') \<Longrightarrow> resolved parse member"
  by (auto simp: registerCluster_begin_def resolved_def split: sum.splits prod.splits) blast+

lemma locked_step:
  assumes "resolved parse m" and "SetCluster_locked lib s name m = (err, s')"
  shows "server_step lib parse s s'"
proof -
  obtain client disc selectors w changed w' where "member_resolve parse \<lparr>mc_client = client, mc_discovery = disc,
      mc_selectors = selectors, mc_resources = []\<rparr> w = ((Inr changed, m), w')" using assms(1) by (auto simp: resolved_def)
  then have "SetCluster lib parse s name client disc selectors w = ((err, s'), w')"
    using assms(2) by (simp add: SetCluster_def SetCluster_locked_def)
  then show ?thesis by (rule step_set)
qed

lemma locked_names:
  "SetCluster_locked lib s name m = (err, s') \<Longrightarrow> set (server_Clusters s') = insert name (set (server_Clusters s))"
  using rebuild_members [of lib "s\<lparr>sv_members := AList.update name m (sv_members s)\<rparr>"]
  by (auto simp: SetCluster_locked_def server_Clusters_def dom_update)

lemma locked_in_sync:
  assumes "server_ok s" and "SetCluster_locked lib s name m = (None, s')"
  shows "in_sync lib s'"
  using assms unfolding SetCluster_locked_def
  by (intro rebuild_in_sync [of "s\<lparr>sv_members := AList.update name m (sv_members s)\<rparr>"])
    (simp_all add: server_ok_def distinct_update)

lemma report_ok: "report lib K c s aa fs w = ((None, aa'), w') \<Longrightarrow> fs = []"
  by (cases fs) (auto simp: report_def Let_def split: prod.splits option.splits)

lemma rebuild_opts [simp]: "sv_opts (snd (rebuild lib s)) = sv_opts s"
  by (simp add: rebuild_def Let_def split: sum.splits)

lemma rebuild_blocked:
  assumes "rebuild lib s = (Some e, s')"
  shows "blocked lib s'"
proof -
  have same: "sv_members s' = sv_members s" "sv_opts s' = sv_opts s"
    using rebuild_members [of lib s] rebuild_opts [of lib s] assms by simp_all
  then have offers: "member_offers s' = member_offers s" by (simp add: member_offers_def)
  show ?thesis
  proof (cases "consistent (member_offers s)")
    case True
    then have "Union (lib_gvrString lib) (map (\<lambda>(n, m). (n, mc_resources m)) (sv_members s)) =
        Inr (union_spec (lib_gvrString lib) (member_offers s))"
      using Union_eq [of "map (\<lambda>(n, m). (n, mc_resources m)) (sv_members s)" "lib_gvrString lib"]
      by (simp add: member_offers_def)
    with assms have "\<exists>d e. newGenericServer lib (opt_Hostname (sv_opts s)) (opt_Port (sv_opts s))
        (union_spec (lib_gvrString lib) (member_offers s)) (map (\<lambda>(n, m). (n, mc_client m)) (sv_members s)) d = Inl e"
      by (auto simp: rebuild_def Let_def split: sum.splits if_splits)
    with True show ?thesis by (simp add: blocked_def offers same)
  qed (simp add: blocked_def offers)
qed

subsection \<open>A tick\<close>

lemma resolve_members_same: "resolve_members parse ms w = ((False, ms'), w') \<Longrightarrow> ms' = ms"
proof (induction ms arbitrary: ms' w w')
  case (Cons t ms)
  obtain name m where t: "t = (name, m)" by fastforce
  obtain res m1 w1 where r: "member_resolve parse m w = ((res, m1), w1)" by (metis surj_pair)
  obtain changed ms1 w2 where rest: "resolve_members parse ms w1 = ((changed, ms1), w2)" by (metis surj_pair)
  have "\<not> changed" "res = Inr False \<or> isl res" "ms' = (name, m1) # ms1"
    using Cons.prems t r rest by (auto split: sum.splits)
  moreover from this(2) have "m1 = m" using r by (auto simp: member_resolve_def Let_def split: sum.splits prod.splits if_splits)
  moreover have "ms1 = ms" using Cons.IH rest \<open>\<not> changed\<close> by simp
  ultimately show ?case by (simp add: t)
qed simp

lemma resync_effect:
  assumes "server_ok s" and "resync lib parse s w = (s', w')"
  shows "set (server_Clusters s') = set (server_Clusters s) \<and> (synced lib s \<longrightarrow> synced lib s')"
proof -
  obtain changed ms w1 where r: "resolve_members parse (sv_members s) w = ((changed, ms), w1)" by (metis surj_pair)
  show ?thesis
  proof (cases changed)
    case False
    with r have "ms = sv_members s" using resolve_members_same by metis
    with assms(2) r False have "s' = s" by (simp add: resync_def)
    then show ?thesis by simp
  next
    case True
    let ?s = "s\<lparr>sv_members := ms\<rparr>"
    from True r assms(2) have s': "s' = snd (rebuild lib ?s)" by (simp add: resync_def)
    have keys: "keys ms = keys (sv_members s)" by (rule resolve_members_keys [OF r])
    then have "server_ok ?s" using assms(1) by (simp add: server_ok_def)
    then have "synced lib s'"
      using rebuild_in_sync [of ?s lib s'] rebuild_blocked [of lib ?s _ s'] s'
      by (cases "rebuild lib ?s"; cases "fst (rebuild lib ?s)") (auto simp: synced_def)
    moreover have "sv_members s' = ms" using s' by simp
    ultimately show ?thesis by (simp add: server_Clusters_def keys)
  qed
qed

lemma phase_ok_mono:
  assumes "set (server_Clusters s') = set (server_Clusters s)" and "synced lib s \<longrightarrow> synced lib s'" and "phase_ok lib parse ph s"
  shows "phase_ok lib parse ph s'"
proof -
  have "covered lib xs fs s'" if "covered lib xs fs s" for xs fs using that assms(1,2) by (auto simp: covered_def)
  moreover have "serves lib aa ok s'" if "serves lib aa ok s" for aa ok using that assms(1,2) by (auto simp: serves_def)
  ultimately show ?thesis using assms by (cases ph) (auto simp: phase_ok_def split: option.splits)
qed

subsection \<open>A step of the pass\<close>

lemma names_nonempty: "sv_members s \<noteq> [] \<Longrightarrow> server_Clusters s \<noteq> []"
  by (simp add: server_Clusters_def) (metis empty_set map_is_Nil_conv set_empty set_sort_Strings)

lemma phase_install:
  assumes "server_ok s" and "phase_ok lib parse (Install aa name m cs fs) s"
    and "pass_step lib parse K c (Install aa name m cs fs, s, w) = (ph', s', w')"
  shows "server_step lib parse s s' \<and> phase_ok lib parse ph' s'"
proof -
  obtain xs x where xs: "sp_Clusters (aa_Spec aa) = xs @ x # cs" "name = cluster_name x" and m: "resolved parse m"
    and cov: "covered lib xs fs s" using assms(2) by (auto simp: phase_ok_def)
  obtain err t where l: "SetCluster_locked lib s name m = (err, t)" by fastforce
  have "t = s'" using assms(3) l by (cases err) auto
  moreover have "covered lib (xs @ [x]) fs t" if "err = None"
    using locked_names [OF l] locked_in_sync [OF assms(1), of lib name m t] l that cov xs(2)
    by (auto simp: covered_def synced_def)
  moreover have "covered lib (xs @ [x]) (fs @ [e]) t" for e by (simp add: covered_def)
  ultimately have "phase_ok lib parse ph' s'"
    using assms(3) l xs(1) by (cases err) (auto simp: phase_ok_def intro: exI [of _ "xs @ [x]"])
  then show ?thesis using locked_step [OF m l] \<open>t = s'\<close> by simp
qed

lemma phase_remove:
  assumes "server_ok s" and "phase_ok lib parse (Remove aa (n # ns) fs) s"
    and "pass_step lib parse K c (Remove aa (n # ns) fs, s, w) = (ph', s', w')"
  shows "(server_step lib parse)\<^sup>*\<^sup>* s s' \<and> phase_ok lib parse ph' s'"
proof (cases "n \<in> set (spec_names aa)")
  case True
  then have "set (spec_names aa) \<union> set (n # ns) = set (spec_names aa) \<union> set ns"
    "set (n # ns) \<subseteq> set (spec_names aa) \<longleftrightarrow> set ns \<subseteq> set (spec_names aa)" by auto
  with assms(2) have "phase_ok lib parse (Remove aa ns fs) s" by (simp only: phase_ok_def phase.case) blast
  with True assms(3) show ?thesis by simp
next
  case False
  obtain err t where r: "RemoveCluster lib s n = (err, t)" by fastforce
  have t: "t = s'" using assms(3) r False by (cases err) auto
  have names: "set (server_Clusters t) = set (server_Clusters s) - {n}" using registry.remove_name [of lib s n] r by simp
  have "err = None \<longrightarrow> synced lib t" using RemoveCluster_in_sync [OF assms(1), of lib n t] r by (auto simp: synced_def)
  moreover from assms(2) have "set (server_Clusters s) \<subseteq> set (spec_names aa) \<union> set (n # ns)"
    and "fs = [] \<longrightarrow> set (spec_names aa) \<subseteq> set (server_Clusters s)" unfolding phase_ok_def phase.case by blast+
  then have "set (server_Clusters t) \<subseteq> set (spec_names aa) \<union> set ns"
    and "fs = [] \<longrightarrow> set (spec_names aa) \<subseteq> set (server_Clusters t)" unfolding names using False by auto
  ultimately have "phase_ok lib parse ph' s'"
    using assms(3) r t False unfolding phase_ok_def by (cases err) auto
  then show ?thesis using step_remove [OF r, of parse] t by auto
qed

lemma idle_names:
  assumes "idle_ok s" and "server_Clusters s = []"
  shows "synced lib s"
proof -
  have "sv_members s = []" using assms(2) names_nonempty by blast
  with idle_in_sync [OF assms(1)] show ?thesis by (simp add: synced_def)
qed

lemma pass_phase:
  assumes "idle_ok s" and "phase_ok lib parse ph s" and "pass_step lib parse K c (ph, s, w) = (ph', s', w')"
  shows "(server_step lib parse)\<^sup>*\<^sup>* s s' \<and> phase_ok lib parse ph' s'"
proof -
  have ok: "server_ok s" using assms(1) by (simp add: idle_ok_def)
  show ?thesis
  proof (cases ph)
    case Fetch
    with assms(3) show ?thesis
      by (auto simp: phase_ok_def covered_def split: prod.splits sum.splits option.splits)
  next
    case (Register aa cs fs)
    show ?thesis
    proof (cases cs)
      case Nil
      with Register assms show ?thesis by (auto simp: phase_ok_def)
    next
      case (Cons x ys)
      from assms(2) Register Cons obtain xs where xs: "sp_Clusters (aa_Spec aa) = xs @ x # ys" "covered lib xs fs s"
        by (auto simp: phase_ok_def)
      obtain res w1 where b: "registerCluster_begin parse K c (cluster_name x) x w = (res, w1)" by fastforce
      show ?thesis
      proof (cases res)
        case (Inl e)
        with b Register Cons assms(3) xs(1) show ?thesis
          by (auto simp: phase_ok_def covered_def intro!: exI [of _ "xs @ [x]"])
      next
        case (Inr m)
        with b have "resolved parse m" by (auto intro: begin_resolved)
        with b Register Cons assms(3) xs Inr show ?thesis by (auto simp: phase_ok_def)
      qed
    qed
  next
    case (Install aa name m cs fs)
    with phase_install [OF ok] assms(2,3) show ?thesis by blast
  next
    case (Names aa fs)
    have "synced lib s" if "sp_Clusters (aa_Spec aa) = []" "server_Clusters s = []" using idle_names [OF assms(1) that(2)] .
    with Names assms(2,3) show ?thesis by (auto simp: phase_ok_def covered_def)
  next
    case (Remove aa ns fs)
    then show ?thesis using assms(2,3) phase_remove [OF ok] by (cases ns) (auto simp: phase_ok_def serves_def)
  next
    case (Publish aa fs)
    then show ?thesis using assms(2,3) report_ok
      by (fastforce simp: phase_ok_def serves_def split: prod.splits)
  next
    case (Commit aa aa' err)
    then show ?thesis using assms(2,3) by (auto simp: phase_ok_def serves_def split: prod.splits)
  next
    case (Returned oaa err)
    with assms(2,3) show ?thesis by simp
  qed
qed

lemma child_ok_step:
  assumes "child_ok lib parse opts x" and "child_step lib parse K c x y"
  shows "child_ok lib parse opts y"
proof -
  obtain ph s w where x: "x = (ph, s, w)" by (cases x)
  with assms(1) have reach: "(server_step lib parse)\<^sup>*\<^sup>* (server_New opts) s" and ph: "phase_ok lib parse ph s"
    by (simp_all add: child_ok_def)
  have idle: "idle_ok s" by (rule idle.reached_invar [OF refl reach])
  from assms(2) show ?thesis
  proof cases
    case child_own
    then obtain ph' s' w' where y: "y = (ph', s', w')" "pass_step lib parse K c (ph, s, w) = (ph', s', w')"
      by (cases y) (simp add: own_def x)
    with pass_phase [OF idle ph y(2)] reach show ?thesis by (auto simp: child_ok_def)
  next
    case child_others
    then show ?thesis
    proof cases
      case (tick s0 w0 s' w' ph0)
      then have "server_step lib parse s s'" using x by (auto intro: step_resync)
      moreover have "phase_ok lib parse ph s'"
        using phase_ok_mono [OF _ _ ph] resync_effect [of s lib parse w s' w'] idle tick x by (simp add: idle_ok_def)
      ultimately show ?thesis using reach tick x by (auto simp: child_ok_def)
    next
      case (clusters_change ph0 s0 w0 w')
      then show ?thesis using reach ph x by (simp add: child_ok_def)
    qed
  next
    case (next_pass oaa err s0 w0)
    then show ?thesis using reach x by (simp add: child_ok_def phase_ok_def)
  qed
qed

interpretation child: inductive_invariant "\<lambda>x. \<exists>w. x = (Fetch, server_New opts, w)" "child_step lib parse K c" "child_ok lib parse opts"
  for lib parse opts K c
proof unfold_locales
  show "child_ok lib parse opts x" if "\<exists>w. x = (Fetch, server_New opts, w)" for x
    using that by (auto simp: child_ok_def phase_ok_def)
qed (rule child_ok_step)

subsection \<open>A pass on its own\<close>

lemma finished_simps [simp]:
  "finished (Fetch, x)  = False" "finished (Register aa cs fs, x) = False" "finished (Install aa n m cs fs, x) = False"
  "finished (Names aa fs, x) = False" "finished (Remove aa ns fs, x) = False" "finished (Publish aa fs, x) = False"
  "finished (Commit aa aa' err, x) = False" "finished (Returned oaa err, x) = True"
  by (simp_all add: finished_def)

lemma own_next: "\<not> finished x \<Longrightarrow> (own lib parse K c)\<^sup>*\<^sup>* (pass_step lib parse K c x) y \<Longrightarrow> (own lib parse K c)\<^sup>*\<^sup>* x y"
  by (auto simp: own_def intro: converse_rtranclp_into_rtranclp)

lemma run_register:
  assumes "register_clusters lib parse K c cs s w = ((fs', s'), w')"
  shows "(own lib parse K c)\<^sup>*\<^sup>* (Register aa cs fs, s, w) (Register aa [] (fs @ fs'), s', w')"
  using assms
proof (induction cs arbitrary: s w fs fs')
  case (Cons x cs)
  obtain err s1 w1 where one: "registerCluster lib parse K c (cluster_name x) x s w = ((err, s1), w1)" by (metis surj_pair)
  obtain gs where rest: "register_clusters lib parse K c cs s1 w1 = ((gs, s'), w')"
    and fs': "fs' = (case err of None \<Rightarrow> gs | Some e \<Rightarrow> Wrapf ''cluster %q: %w'' [cluster_name x] e # gs)"
    using Cons.prems one by (auto split: prod.splits)
  obtain res v where b: "registerCluster_begin parse K c (cluster_name x) x w = (res, v)" by fastforce
  note IH = Cons.IH [OF rest]
  show ?case
  proof (cases res)
    case (Inl e)
    then have "err = Some e" "s1 = s" "w1 = v" using one b by (simp_all add: registerCluster_split)
    with IH [of "fs @ [Wrapf ''cluster %q: %w'' [cluster_name x] e]"] fs' b Inl show ?thesis
      by (intro own_next [of "(Register aa (x # cs) fs, s, w)"]) simp_all
  next
    case (Inr m)
    obtain e t where l: "SetCluster_locked lib s (cluster_name x) m = (e, t)" by fastforce
    then have "err = map_option (Wrapf ''registering on the server: %w'' []) e" "s1 = t" "w1 = v"
      using one b Inr by (simp_all add: registerCluster_split)
    with IH [of fs] IH [of "fs @ [Wrapf ''cluster %q: %w'' [cluster_name x] (the err)]"] fs' l have
      "(own lib parse K c)\<^sup>*\<^sup>* (Install aa (cluster_name x) m cs fs, s, v) (Register aa [] (fs @ fs'), s', w')"
      by (intro own_next [of "(Install aa (cluster_name x) m cs fs, s, v)"]) (cases e; simp)+
    with b Inr show ?thesis by (intro own_next [of "(Register aa (x # cs) fs, s, w)"]) simp_all
  qed
qed simp

lemma run_remove:
  assumes "remove_clusters lib (spec_names aa) ns s = (fs', s')"
  shows "(own lib parse K c)\<^sup>*\<^sup>* (Remove aa ns fs, s, w) (Remove aa [] (fs @ fs'), s', w)"
  using assms
proof (induction ns arbitrary: s fs fs')
  case (Cons n ns)
  show ?case
  proof (cases "n \<in> set (spec_names aa)")
    case True
    with Cons.IH [of s fs' fs] Cons.prems show ?thesis by (intro own_next [of "(Remove aa (n # ns) fs, s, w)"]) simp_all
  next
    case False
    obtain err t where r: "RemoveCluster lib s n = (err, t)" by fastforce
    obtain gs where rest: "remove_clusters lib (spec_names aa) ns t = (gs, s')"
      and fs': "fs' = (case err of None \<Rightarrow> gs | Some e \<Rightarrow> Wrapf ''removing cluster %q: %w'' [n] e # gs)"
      using Cons.prems False r by (auto split: prod.splits)
    note IH = Cons.IH [OF rest]
    from IH [of fs] IH [of "fs @ [Wrapf ''removing cluster %q: %w'' [n] (the err)]"] fs' r False show ?thesis
      by (intro own_next [of "(Remove aa (n # ns) fs, s, w)"]) (cases err; simp)+
  qed
qed simp

lemma aggregator_run_report:
  "aggregator_run lib parse K c aa s w =
     (case register_clusters lib parse K c (sp_Clusters (aa_Spec aa)) s w of ((failures, s1), w1) \<Rightarrow>
       (case remove_clusters lib (spec_names aa) (server_Clusters s1) s1 of (failures', s2) \<Rightarrow>
         (case report lib K c s2 aa (failures @ failures') w1 of ((err, aa'), w2) \<Rightarrow> ((err, aa', s2), w2))))"
  by (simp add: aggregator_run_def report_def Let_def split: prod.splits)

lemma run_pass:
  assumes "Reconcile lib parse K c (co_Namespace c, co_AggregatedAPI c) s w = ((err, s'), w')"
  shows "(own lib parse K c)\<^sup>*\<^sup>* (Fetch, s, w) (Returned (fetched c w) err, s', w')"
proof -
  obtain res w1 where f: "fetchAggregatedAPI c w = (res, w1)" by fastforce
  have rec: "aggregator_reconcile lib parse K c s w = ((err, s'), w')" using assms by (simp add: Reconcile_def)
  consider e where "res = Inl e" | "res = Inr None" | aa where "res = Inr (Some aa)" by (cases res) auto
  then show ?thesis
  proof cases
    case 1
    with rec f have "pass_step lib parse K c (Fetch, s, w) = (Returned None err, s', w')" by (simp add: aggregator_reconcile_def)
    moreover have "fetched c w = None" using 1 f by (simp add: fetched_def)
    ultimately show ?thesis by (intro own_next [of "(Fetch, s, w)"]) simp_all
  next
    case 2
    with rec f have "pass_step lib parse K c (Fetch, s, w) = (Returned None err, s', w')" by (simp add: aggregator_reconcile_def)
    moreover have "fetched c w = None" using 2 f by (simp add: fetched_def)
    ultimately show ?thesis by (intro own_next [of "(Fetch, s, w)"]) simp_all
  next
    case (3 aa)
    obtain fs s1 w2 where reg: "register_clusters lib parse K c (sp_Clusters (aa_Spec aa)) s w1 = ((fs, s1), w2)"
      by (metis surj_pair)
    obtain gs s2 where rem: "remove_clusters lib (spec_names aa) (server_Clusters s1) s1 = (gs, s2)" by fastforce
    obtain e1 aa' w3 where rep: "report lib K c s2 aa (fs @ gs) w2 = ((e1, aa'), w3)" by (metis surj_pair)
    obtain e2 w4 where com: "commitStatus c aa aa' w3 = (e2, w4)" by fastforce
    have "((err, s'), w') = ((errors_Join [e1, e2], s2), w4)"
      using rec f 3 reg rem rep com by (simp add: aggregator_reconcile_def aggregator_run_report)
    with com have "(own lib parse K c)\<^sup>*\<^sup>* (Commit aa aa' e1, s2, w3) (Returned (Some aa) err, s', w')"
      by (intro own_next [of "(Commit aa aa' e1, s2, w3)"]) simp_all
    with rep have "(own lib parse K c)\<^sup>*\<^sup>* (Publish aa (fs @ gs), s2, w2) (Returned (Some aa) err, s', w')"
      by (intro own_next [of "(Publish aa (fs @ gs), s2, w2)"]) simp_all
    then have "(own lib parse K c)\<^sup>*\<^sup>* (Remove aa [] (fs @ gs), s2, w2) (Returned (Some aa) err, s', w')"
      by (intro own_next [of "(Remove aa [] (fs @ gs), s2, w2)"]) simp_all
    with run_remove [OF rem, of parse K c fs w2]
    have "(own lib parse K c)\<^sup>*\<^sup>* (Remove aa (server_Clusters s1) fs, s1, w2) (Returned (Some aa) err, s', w')" by simp
    then have "(own lib parse K c)\<^sup>*\<^sup>* (Names aa fs, s1, w2) (Returned (Some aa) err, s', w')"
      by (intro own_next [of "(Names aa fs, s1, w2)"]) simp_all
    then have "(own lib parse K c)\<^sup>*\<^sup>* (Register aa [] fs, s1, w2) (Returned (Some aa) err, s', w')"
      by (intro own_next [of "(Register aa [] fs, s1, w2)"]) simp_all
    with run_register [OF reg, of aa "[]"]
    have "(own lib parse K c)\<^sup>*\<^sup>* (Register aa (sp_Clusters (aa_Spec aa)) [], s, w1) (Returned (Some aa) err, s', w')" by simp
    with f 3 have "(own lib parse K c)\<^sup>*\<^sup>* (Fetch, s, w) (Returned (Some aa) err, s', w')"
      by (intro own_next [of "(Fetch, s, w)"]) simp_all
    moreover have "fetched c w = Some aa" using 3 f by (simp add: fetched_def)
    ultimately show ?thesis by simp
  qed
qed

text \<open>A pass alone is deterministic and ends for good.\<close>

lemma own_unique:
  assumes "(own lib parse K c)\<^sup>*\<^sup>* x y" and "(own lib parse K c)\<^sup>*\<^sup>* x z" and "finished y" and "finished z"
  shows "y = z"
  using assms
proof (induction rule: converse_rtranclp_induct)
  case base
  then show ?case by (metis converse_rtranclpE own_def)
next
  case (step x x')
  then have "x \<noteq> z" by (auto simp: own_def)
  with step.prems(1) obtain x'' where "own lib parse K c x x''" "(own lib parse K c)\<^sup>*\<^sup>* x'' z" by (metis converse_rtranclpE)
  with step.hyps(1) have "x'' = x'" by (simp add: own_def)
  with step.IH step.prems(2,3) \<open>(own lib parse K c)\<^sup>*\<^sup>* x'' z\<close> show ?case by blast
qed

subsection \<open>How long a pass is\<close>

definition phase_weight :: "('w, 'h, 'd) child \<Rightarrow> nat" where
  "phase_weight x = (case x of (ph, s, w) \<Rightarrow> (case ph of
       Fetch \<Rightarrow> 0
     | Register aa cs fs \<Rightarrow> 3 * length cs + length (server_Clusters s) + 5
     | Install aa n m cs fs \<Rightarrow> 3 * length cs + length (server_Clusters s) + 7
     | Names aa fs \<Rightarrow> length (server_Clusters s) + 4
     | Remove aa ns fs \<Rightarrow> length ns + 3
     | Publish aa fs \<Rightarrow> 2
     | Commit aa aa' err \<Rightarrow> 1
     | Returned oaa err \<Rightarrow> 0))"

lemma length_names: "length (server_Clusters s) = length (sv_members s)"
proof -
  have "size (mset (sort_Strings (keys (sv_members s)))) = length (sv_members s)" by simp
  then show ?thesis by (simp only: server_Clusters_def size_mset)
qed

lemma length_update: "length (AList.update k v xs) \<le> Suc (length xs)"
  by (induction xs) auto

lemma locked_length: "SetCluster_locked lib s n m = (err, s') \<Longrightarrow> length (server_Clusters s') \<le> Suc (length (server_Clusters s))"
  using rebuild_members [of lib "s\<lparr>sv_members := AList.update n m (sv_members s)\<rparr>"] length_update [of n m "sv_members s"]
  by (simp add: SetCluster_locked_def length_names)

lemma own_weight:
  assumes "own lib parse K c x y" and "fst x \<noteq> Fetch"
  shows "phase_weight y < phase_weight x \<and> fst y \<noteq> Fetch \<and> phase_api (fst y) = phase_api (fst x)"
proof -
  obtain ph s w where x: "x = (ph, s, w)" by (cases x)
  with assms have y: "y = pass_step lib parse K c (ph, s, w)" "\<not> finished (ph, s, w)" "ph \<noteq> Fetch" by (simp_all add: own_def)
  show ?thesis
  proof (cases ph)
    case (Register aa cs fs)
    then show ?thesis
      by (cases cs) (auto simp: x y(1) phase_weight_def phase_api_def split: prod.splits sum.splits)
  next
    case (Install aa n m cs fs)
    obtain err t where l: "SetCluster_locked lib s n m = (err, t)" by fastforce
    from locked_length [OF this] l Install show ?thesis
      by (cases err) (auto simp: x y(1) phase_weight_def phase_api_def)
  next
    case (Remove aa ns fs)
    then show ?thesis
      by (cases ns) (auto simp: x y(1) phase_weight_def phase_api_def split: prod.splits option.splits)
  qed (use y(2,3) in \<open>auto simp: x y(1) phase_weight_def phase_api_def split: prod.splits\<close>)
qed

lemma others_weight:
  assumes "others lib parse x y"
  shows "phase_weight y = phase_weight x \<and> fst y = fst x \<and> length (server_Clusters (fst (snd y))) = length (server_Clusters (fst (snd x)))"
  using assms
proof cases
  case (tick s w s' w' ph)
  obtain changed ms w1 where r: "resolve_members parse (sv_members s) w = ((changed, ms), w1)" by (metis surj_pair)
  then have "sv_members s' = ms" using tick by (auto simp: resync_def Let_def split: if_splits)
  moreover have "length ms = length (sv_members s)" using resolve_members_keys [OF r] by (metis length_map)
  ultimately have "length (server_Clusters s') = length (server_Clusters s)" by (simp add: length_names)
  with tick show ?thesis by (cases ph) (simp_all add: phase_weight_def)
next
  case clusters_change
  then show ?thesis by (simp add: phase_weight_def)
qed

lemma all_others_weight:
  assumes "(others lib parse)\<^sup>*\<^sup>* x y"
  shows "phase_weight y = phase_weight x \<and> fst y = fst x \<and> length (server_Clusters (fst (snd y))) = length (server_Clusters (fst (snd x)))"
  using assms by (induction rule: rtranclp_induct) (auto dest: others_weight)

abbreviation turn :: "('w, 'h, 'd) server_libs \<Rightarrow> group_parser \<Rightarrow> ('w, 'h, 'c) k8s_libs \<Rightarrow> ('w, 'h, 'c) Controller
     \<Rightarrow> ('w, 'h, 'd) child \<Rightarrow> ('w, 'h, 'd) child \<Rightarrow> bool" where
  "turn lib parse K c \<equiv> (others lib parse)\<^sup>*\<^sup>* OO own lib parse K c"

lemma rounds_weight:
  assumes "(turn lib parse K c ^^ n) x y" and "fst x \<noteq> Fetch"
  shows "n + phase_weight y \<le> phase_weight x \<and> phase_api (fst y) = phase_api (fst x) \<and> fst y \<noteq> Fetch"
  using assms(1)
proof (induction n arbitrary: y)
  case (Suc n)
  then obtain z v where z: "(turn lib parse K c ^^ n) x z" "(others lib parse)\<^sup>*\<^sup>* z v" "own lib parse K c v y" by auto
  note IH = Suc.IH [OF z(1)] and oth = all_others_weight [OF z(2)]
  then have "fst v \<noteq> Fetch" by simp
  from own_weight [OF z(3) this] IH oth show ?case by simp
qed (use assms(2) in simp)

section \<open>Properties\<close>



lemma own_child: "(own lib parse K c)\<^sup>*\<^sup>* x y \<Longrightarrow> (child_step lib parse K c)\<^sup>*\<^sup>* x y"
  by (induction rule: rtranclp_induct) (auto intro: child_own rtranclp.rtrancl_into_rtrancl)

lemma demo_process_run:
  "(own demo_libs apps_v1 demo_k8s (demo_controller url [''east'']))\<^sup>*\<^sup>* (Fetch, server_New demo_options, web_east)
     (Returned (Some (demo_api [''east''])) None, with_east, web_east)"
proof -
  let ?c = "demo_controller url [''east'']"
  have key: "(co_Namespace ?c, co_AggregatedAPI ?c) = (''team'', ''web'')" by (simp add: demo_controller_def)
  have "fetched ?c web_east = Some (demo_api [''east''])"
    by (simp add: fetched_def fetchAggregatedAPI_def demo_controller_def demo_host_def)
  then show ?thesis using run_pass [OF demo_reconcile [of url, folded key]] by simp
qed


text \<open>
  C19. No cluster is lost on the way: at any moment, only a pass over an object that does not list a cluster
  takes it from the server, and only a pass over an object that lists it adds it; ticks do neither.
\<close>

theorem changes_follow_spec:
  assumes "(child_step lib parse K c)\<^sup>*\<^sup>* (Fetch, server_New opts, w0) (ph, s, w)"
    and "child_step lib parse K c (ph, s, w) (ph', s', w')"
  shows "(\<forall>n \<in> set (server_Clusters s) - set (server_Clusters s'). \<exists>aa. phase_api ph = Some aa \<and> n \<notin> set (spec_names aa)) \<and>
    (\<forall>n \<in> set (server_Clusters s') - set (server_Clusters s). \<exists>aa. phase_api ph = Some aa \<and> n \<in> set (spec_names aa))"
proof -
  have ok: "child_ok lib parse opts (ph, s, w)" by (rule child.reached_invar [OF _ assms(1)]) blast
  then have "idle_ok s" using idle.reached_invar [OF refl] by (auto simp: child_ok_def)
  then have sv: "server_ok s" by (simp add: idle_ok_def)
  from assms(2) show ?thesis
  proof cases
    case child_own
    then have step: "pass_step lib parse K c (ph, s, w) = (ph', s', w')" by (simp add: own_def)
    show ?thesis
    proof (cases ph)
      case (Install aa n m cs fs)
      obtain err t where l: "SetCluster_locked lib s n m = (err, t)" by fastforce
      then have "t = s'" using step Install by (cases err) auto
      moreover have "n \<in> set (spec_names aa)" using ok Install by (auto simp: child_ok_def phase_ok_def)
      ultimately show ?thesis using locked_names [OF l] Install by (auto simp: phase_api_def)
    next
      case (Register aa cs fs)
      with step have "s' = s" by (cases cs) (auto split: prod.splits sum.splits)
      then show ?thesis by simp
    next
      case (Remove aa ns fs)
      show ?thesis
      proof (cases "ns = [] \<or> hd ns \<in> set (spec_names aa)")
        case True
        with step Remove have "s' = s" by (cases ns) auto
        then show ?thesis by simp
      next
        case False
        then obtain n ns' where n: "ns = n # ns'" "n \<notin> set (spec_names aa)" by (cases ns) auto
        obtain err t where r: "RemoveCluster lib s n = (err, t)" by fastforce
        then have "t = s'" using step Remove n by (cases err) auto
        then show ?thesis using registry.remove_name [of lib s n] r Remove n(2) by (auto simp: phase_api_def)
      qed
    qed (use step in \<open>auto split: prod.splits sum.splits option.splits\<close>)
  next
    case child_others
    then show ?thesis
    proof cases
      case tick
      with resync_effect [OF sv] show ?thesis by blast
    qed auto
  qed auto
qed

theorem changes_follow_spec_witness:
  "set (spec_names (demo_api [''east''])) \<inter>
     (set (server_Clusters with_east) - set (server_Clusters (fst (resync demo_libs apps_v1 with_east web_east)))) = {}"
proof -
  obtain s' w' where r: "resync demo_libs apps_v1 with_east web_east = (s', w')" by fastforce
  from changes_follow_spec [OF own_child [OF demo_process_run] child_others [OF tick [OF r]]] r
  show ?thesis by (auto simp: phase_api_def)
qed

text \<open>
  C25. A pass is short: after it has read an object with \<open>k\<close> clusters, starting on a server with \<open>m\<close> clusters, it
  makes at most \<open>3 * k + m + 6\<close> steps, however many ticks and changes come between them.
\<close>

theorem pass_bounded:
  assumes "(turn lib parse K c ^^ n) (Fetch, s, w) (ph, s', w')" and "phase_api ph = Some aa"
  shows "n \<le> 3 * length (sp_Clusters (aa_Spec aa)) + length (server_Clusters s) + 6"
proof (cases n)
  case 0
  then show ?thesis by simp
next
  case (Suc k)
  with assms(1) obtain y where first: "turn lib parse K c (Fetch, s, w) y" and rest: "(turn lib parse K c ^^ k) y (ph, s', w')"
    using relpowp_Suc_D2 by metis
  then obtain v where v: "(others lib parse)\<^sup>*\<^sup>* (Fetch, s, w) v" "own lib parse K c v y" by auto
  obtain s1 w1 where s1: "v = (Fetch, s1, w1)" "length (server_Clusters s1) = length (server_Clusters s)"
    using all_others_weight [OF v(1)] by (cases v) auto
  obtain res w2 where f: "fetchAggregatedAPI c w1 = (res, w2)" by fastforce
  have y: "y = pass_step lib parse K c (Fetch, s1, w1)" using v(2) s1(1) by (simp add: own_def)
  then have "fst y \<noteq> Fetch" by (auto split: prod.splits sum.splits option.splits)
  from rounds_weight [OF rest this] assms(2) have k: "k \<le> phase_weight y" and api: "phase_api (fst y) = Some aa" by simp_all
  from api y f have "y = (Register aa (sp_Clusters (aa_Spec aa)) [], s1, w2)"
    by (auto simp: phase_api_def split: sum.splits option.splits)
  with k s1(2) Suc show ?thesis by (simp add: phase_weight_def)
qed

theorem pass_bounded_witness:
  "\<exists>n. (turn demo_libs apps_v1 demo_k8s (demo_controller ''https://web'' [''east'']) ^^ n)
       (Fetch, server_New demo_options, web_east) (Returned (Some (demo_api [''east''])) None, with_east, web_east) \<and> n \<le> 9"
proof -
  let ?r = "turn demo_libs apps_v1 demo_k8s (demo_controller ''https://web'' [''east''])"
  have "?r\<^sup>*\<^sup>* (Fetch, server_New demo_options, web_east) (Returned (Some (demo_api [''east''])) None, with_east, web_east)"
    using demo_process_run by (rule rtranclp_mono [THEN predicate2D, rotated]) auto
  then obtain n where n: "(?r ^^ n) (Fetch, server_New demo_options, web_east)
      (Returned (Some (demo_api [''east''])) None, with_east, web_east)" by (auto dest: rtranclp_imp_relpowp)
  have "length (server_Clusters (server_New demo_options :: (mem, nat, unit) server)) = 0"
    by (simp add: length_names server_New_def)
  with pass_bounded [OF n, of "demo_api [''east'']"] n show ?thesis by (auto simp: phase_api_def demo_api_def)
qed

end
