(* ===== verification/DeepCopy.thy ===== *)
theory DeepCopy
  imports API
begin

text \<open>
  \<open>apis/v1alpha1/zz_generated.deepcopy.go\<close>: the types of the API as they lie in memory, with pointers
  and slices that can be shared, and the functions that copy them. The other theories use the values
  of these types (\<open>API\<close>); this one shows when that is sound. The deep copies of the library types
  embedded in the objects are parameters, with the contract that is proved here for all others.
\<close>

section \<open>Definitions\<close>

text \<open>
  A slice is nil or the address of its elements, a pointer is nil or the address of one element.
  None of the functions here reslices or appends, so the capacity plays no role. Strings are
  immutable values.
\<close>

type_synonym addr = nat

record APISelector_mem =
  mas_Group :: string
  mas_Resources :: "addr option"
  mas_Versions :: "addr option"

record AggregatedCluster_mem =
  mac_Access :: ClusterAccess
  mac_APIs :: "addr option"

record AggregatedAPISpec_mem =
  msp_Image :: string
  msp_ResyncInterval :: "addr option"
  msp_Clusters :: "addr option"

record AggregatedAPIStatus_mem =
  mst_Conditions :: "addr option"
  mst_URL :: string
  mst_KubeconfigSecret :: string

text \<open>Of \<open>metav1.ObjectMeta\<close> and \<open>metav1.ListMeta\<close>, the fields of the model.\<close>

record ObjectMeta_mem =
  mom_namespace :: string
  mom_name :: string
  mom_uid :: string
  mom_generation :: int
  mom_deletionTimestamp :: "addr option"
  mom_finalizers :: "addr option"

record ListMeta_mem =
  mlm_ResourceVersion :: string
  mlm_Continue :: string
  mlm_RemainingItemCount :: "addr option"

record AggregatedAPI_mem =
  maa_TypeMeta :: "string \<times> string"
  maa_ObjectMeta :: ObjectMeta_mem
  maa_Spec :: AggregatedAPISpec_mem
  maa_Status :: AggregatedAPIStatus_mem

record AggregatedAPIList_mem =
  mal_TypeMeta :: "string \<times> string"
  mal_ListMeta :: ListMeta_mem
  mal_Items :: "addr option"

text \<open>What lies at an address: the elements of a slice, or the one element of a pointer.\<close>

datatype cell =
    Strings "string list"
  | Ints "int list"
  | Selectors "APISelector_mem list"
  | Accesses "ClusterAccess list"
  | Clusters "AggregatedCluster_mem list"
  | Conditions "Condition list"
  | Specs "AggregatedAPISpec_mem list"
  | Statuses "AggregatedAPIStatus_mem list"
  | APIs "AggregatedAPI_mem list"
  | Lists "AggregatedAPIList_mem list"

record heap =
  hp_cells :: "addr \<rightharpoonup> cell"
  hp_next :: addr

text \<open>A type of elements: how its cells are written and read, and its zero value.\<close>

record 'v elem =
  el_inj :: "'v list \<Rightarrow> cell"
  el_prj :: "cell \<Rightarrow> 'v list option"
  el_zero :: 'v

definition strings :: "string elem" where
  "strings = \<lparr>el_inj = Strings, el_prj = (\<lambda>c. case c of Strings vs \<Rightarrow> Some vs | _ \<Rightarrow> None), el_zero = ''''\<rparr>"

definition ints :: "int elem" where
  "ints = \<lparr>el_inj = Ints, el_prj = (\<lambda>c. case c of Ints vs \<Rightarrow> Some vs | _ \<Rightarrow> None), el_zero = 0\<rparr>"

definition selectors :: "APISelector_mem elem" where
  "selectors = \<lparr>el_inj = Selectors, el_prj = (\<lambda>c. case c of Selectors vs \<Rightarrow> Some vs | _ \<Rightarrow> None),
     el_zero = \<lparr>mas_Group = '''', mas_Resources = None, mas_Versions = None\<rparr>\<rparr>"

definition accesses :: "ClusterAccess elem" where
  "accesses = \<lparr>el_inj = Accesses, el_prj = (\<lambda>c. case c of Accesses vs \<Rightarrow> Some vs | _ \<Rightarrow> None),
     el_zero = \<lparr>ca_KubeconfigName = ''''\<rparr>\<rparr>"

definition clusters :: "AggregatedCluster_mem elem" where
  "clusters = \<lparr>el_inj = Clusters, el_prj = (\<lambda>c. case c of Clusters vs \<Rightarrow> Some vs | _ \<Rightarrow> None),
     el_zero = \<lparr>mac_Access = el_zero accesses, mac_APIs = None\<rparr>\<rparr>"

definition conditions :: "Condition elem" where
  "conditions = \<lparr>el_inj = Conditions, el_prj = (\<lambda>c. case c of Conditions vs \<Rightarrow> Some vs | _ \<Rightarrow> None),
     el_zero = \<lparr>cond_Type = '''', cond_Status = '''', cond_ObservedGeneration = 0, cond_Reason = '''',
       cond_Message = ''''\<rparr>\<rparr>"

definition specs :: "AggregatedAPISpec_mem elem" where
  "specs = \<lparr>el_inj = Specs, el_prj = (\<lambda>c. case c of Specs vs \<Rightarrow> Some vs | _ \<Rightarrow> None),
     el_zero = \<lparr>msp_Image = '''', msp_ResyncInterval = None, msp_Clusters = None\<rparr>\<rparr>"

definition statuses :: "AggregatedAPIStatus_mem elem" where
  "statuses = \<lparr>el_inj = Statuses, el_prj = (\<lambda>c. case c of Statuses vs \<Rightarrow> Some vs | _ \<Rightarrow> None),
     el_zero = \<lparr>mst_Conditions = None, mst_URL = '''', mst_KubeconfigSecret = ''''\<rparr>\<rparr>"

definition no_ObjectMeta :: ObjectMeta_mem where
  "no_ObjectMeta = \<lparr>mom_namespace = '''', mom_name = '''', mom_uid = '''', mom_generation = 0,
     mom_deletionTimestamp = None, mom_finalizers = None\<rparr>"

definition apis :: "AggregatedAPI_mem elem" where
  "apis = \<lparr>el_inj = APIs, el_prj = (\<lambda>c. case c of APIs vs \<Rightarrow> Some vs | _ \<Rightarrow> None),
     el_zero = \<lparr>maa_TypeMeta = ('''', ''''), maa_ObjectMeta = no_ObjectMeta, maa_Spec = el_zero specs,
       maa_Status = el_zero statuses\<rparr>\<rparr>"

definition api_lists :: "AggregatedAPIList_mem elem" where
  "api_lists = \<lparr>el_inj = Lists, el_prj = (\<lambda>c. case c of Lists vs \<Rightarrow> Some vs | _ \<Rightarrow> None),
     el_zero = \<lparr>mal_TypeMeta = ('''', ''''),
       mal_ListMeta = \<lparr>mlm_ResourceVersion = '''', mlm_Continue = '''', mlm_RemainingItemCount = None\<rparr>,
       mal_Items = None\<rparr>\<rparr>"

text \<open>Reading, writing and allocating (\<open>new\<close>, \<open>make\<close>) memory.\<close>

definition elems :: "'v elem \<Rightarrow> heap \<Rightarrow> addr \<Rightarrow> 'v list" where
  "elems T h a = (case hp_cells h a of None \<Rightarrow> [] | Some c \<Rightarrow> (case el_prj T c of None \<Rightarrow> [] | Some vs \<Rightarrow> vs))"

definition deref :: "'v elem \<Rightarrow> heap \<Rightarrow> addr \<Rightarrow> 'v" where
  "deref T h a = (case elems T h a of [] \<Rightarrow> el_zero T | v # vs \<Rightarrow> v)"

definition put_elems :: "'v elem \<Rightarrow> addr \<Rightarrow> 'v list \<Rightarrow> heap \<Rightarrow> heap" where
  "put_elems T a vs h = h\<lparr>hp_cells := (hp_cells h)(a \<mapsto> el_inj T vs)\<rparr>"

definition make_slice :: "'v elem \<Rightarrow> nat \<Rightarrow> heap \<Rightarrow> addr \<times> heap" where
  "make_slice T n h =
     (hp_next h, (put_elems T (hp_next h) (replicate n (el_zero T)) h)\<lparr>hp_next := Suc (hp_next h)\<rparr>)"

text \<open>
  A copy function reads the value \<open>*in\<close> and returns the value written to \<open>*out\<close>. The statement
  \<open>for i := range *in { (*in)[i].DeepCopyInto(&(*out)[i]) }\<close> of a slice:
\<close>

type_synonym 'v copy = "'v \<Rightarrow> heap \<Rightarrow> 'v \<times> heap"

fun copy_range :: "'v elem \<Rightarrow> 'v copy \<Rightarrow> addr \<Rightarrow> addr \<Rightarrow> nat list \<Rightarrow> heap \<Rightarrow> heap" where
  "copy_range T copy a b [] h = h"
| "copy_range T copy a b (i # is) h =
     (case copy (elems T h a ! i) h of (v, h1) \<Rightarrow>
       copy_range T copy a b is (put_elems T b ((elems T h1 b)[i := v]) h1))"

definition copy_slice :: "'v elem \<Rightarrow> 'v copy \<Rightarrow> addr option copy" where
  "copy_slice T copy s h =
     (case s of None \<Rightarrow> (None, h)
      | Some a \<Rightarrow> (case make_slice T (length (elems T h a)) h of (b, h1) \<Rightarrow>
          (Some b, copy_range T copy a b [0..<length (elems T h1 a)] h1)))"

text \<open>\<open>out := new(T); in.DeepCopyInto(out)\<close> for a pointer, nil for nil.\<close>

definition copy_ptr :: "'v elem \<Rightarrow> 'v copy \<Rightarrow> addr option copy" where
  "copy_ptr T copy p h =
     (case p of None \<Rightarrow> (None, h)
      | Some a \<Rightarrow> (case make_slice T 1 h of (b, h1) \<Rightarrow>
          (case copy (deref T h1 a) h1 of (v, h2) \<Rightarrow> (Some b, put_elems T b [v] h2))))"

text \<open>Plain assignment, as \<open>copy\<close> does for strings and \<open>**out = **in\<close> for a duration.\<close>

definition assign :: "'v copy" where
  "assign v h = (v, h)"

subsection \<open>The generated functions\<close>

definition APISelector_DeepCopyInto :: "APISelector_mem copy" where
  "APISelector_DeepCopyInto v h =
     (case copy_slice strings assign (mas_Resources v) h of (rs, h1) \<Rightarrow>
       (case copy_slice strings assign (mas_Versions v) h1 of (vs, h2) \<Rightarrow>
         (v\<lparr>mas_Resources := rs, mas_Versions := vs\<rparr>, h2)))"

definition APISelector_DeepCopy :: "addr option copy" where
  "APISelector_DeepCopy = copy_ptr selectors APISelector_DeepCopyInto"

definition ClusterAccess_DeepCopyInto :: "ClusterAccess copy" where
  "ClusterAccess_DeepCopyInto v h = (v, h)"

definition ClusterAccess_DeepCopy :: "addr option copy" where
  "ClusterAccess_DeepCopy = copy_ptr accesses ClusterAccess_DeepCopyInto"

definition AggregatedCluster_DeepCopyInto :: "AggregatedCluster_mem copy" where
  "AggregatedCluster_DeepCopyInto v h =
     (case copy_slice selectors APISelector_DeepCopyInto (mac_APIs v) h of (apis', h1) \<Rightarrow>
       (v\<lparr>mac_APIs := apis'\<rparr>, h1))"

definition AggregatedCluster_DeepCopy :: "addr option copy" where
  "AggregatedCluster_DeepCopy = copy_ptr clusters AggregatedCluster_DeepCopyInto"

definition AggregatedAPISpec_DeepCopyInto :: "AggregatedAPISpec_mem copy" where
  "AggregatedAPISpec_DeepCopyInto v h =
     (case copy_ptr ints assign (msp_ResyncInterval v) h of (d, h1) \<Rightarrow>
       (case copy_slice clusters AggregatedCluster_DeepCopyInto (msp_Clusters v) h1 of (cs, h2) \<Rightarrow>
         (v\<lparr>msp_ResyncInterval := d, msp_Clusters := cs\<rparr>, h2)))"

definition AggregatedAPISpec_DeepCopy :: "addr option copy" where
  "AggregatedAPISpec_DeepCopy = copy_ptr specs AggregatedAPISpec_DeepCopyInto"

text \<open>The copies of the library types.\<close>

record meta_lib =
  ml_ObjectMeta :: "ObjectMeta_mem copy"
  ml_ListMeta :: "ListMeta_mem copy"
  ml_Condition :: "Condition copy"

definition AggregatedAPIStatus_DeepCopyInto :: "meta_lib \<Rightarrow> AggregatedAPIStatus_mem copy" where
  "AggregatedAPIStatus_DeepCopyInto L v h =
     (case copy_slice conditions (ml_Condition L) (mst_Conditions v) h of (cs, h1) \<Rightarrow> (v\<lparr>mst_Conditions := cs\<rparr>, h1))"

definition AggregatedAPIStatus_DeepCopy :: "meta_lib \<Rightarrow> addr option copy" where
  "AggregatedAPIStatus_DeepCopy L = copy_ptr statuses (AggregatedAPIStatus_DeepCopyInto L)"

definition AggregatedAPI_DeepCopyInto :: "meta_lib \<Rightarrow> AggregatedAPI_mem copy" where
  "AggregatedAPI_DeepCopyInto L v h =
     (case ml_ObjectMeta L (maa_ObjectMeta v) h of (om, h1) \<Rightarrow>
       (case AggregatedAPISpec_DeepCopyInto (maa_Spec v) h1 of (sp, h2) \<Rightarrow>
         (case AggregatedAPIStatus_DeepCopyInto L (maa_Status v) h2 of (sts, h3) \<Rightarrow>
           (v\<lparr>maa_ObjectMeta := om, maa_Spec := sp, maa_Status := sts\<rparr>, h3))))"

definition AggregatedAPI_DeepCopy :: "meta_lib \<Rightarrow> addr option copy" where
  "AggregatedAPI_DeepCopy L = copy_ptr apis (AggregatedAPI_DeepCopyInto L)"

definition AggregatedAPIList_DeepCopyInto :: "meta_lib \<Rightarrow> AggregatedAPIList_mem copy" where
  "AggregatedAPIList_DeepCopyInto L v h =
     (case ml_ListMeta L (mal_ListMeta v) h of (lm, h1) \<Rightarrow>
       (case copy_slice apis (AggregatedAPI_DeepCopyInto L) (mal_Items v) h1 of (is, h2) \<Rightarrow>
         (v\<lparr>mal_ListMeta := lm, mal_Items := is\<rparr>, h2)))"

definition AggregatedAPIList_DeepCopy :: "meta_lib \<Rightarrow> addr option copy" where
  "AggregatedAPIList_DeepCopy L = copy_ptr api_lists (AggregatedAPIList_DeepCopyInto L)"

text \<open>\<open>DeepCopyObject\<close> turns a nil pointer into a nil interface; any other pointer is the object.\<close>

definition AggregatedAPI_DeepCopyObject :: "meta_lib \<Rightarrow> addr option copy" where
  "AggregatedAPI_DeepCopyObject L p h =
     (case AggregatedAPI_DeepCopy L p h of (Some c, h1) \<Rightarrow> (Some c, h1) | (None, h1) \<Rightarrow> (None, h1))"

definition AggregatedAPIList_DeepCopyObject :: "meta_lib \<Rightarrow> addr option copy" where
  "AggregatedAPIList_DeepCopyObject L p h =
     (case AggregatedAPIList_DeepCopy L p h of (Some c, h1) \<Rightarrow> (Some c, h1) | (None, h1) \<Rightarrow> (None, h1))"

section \<open>Specification\<close>

text \<open>
  The value a piece of memory stands for (in the types of \<open>API\<close>), and the addresses it depends on.
\<close>

definition slice_value :: "'v elem \<Rightarrow> (heap \<Rightarrow> 'v \<Rightarrow> 'x) \<Rightarrow> heap \<Rightarrow> addr option \<Rightarrow> 'x list" where
  "slice_value T val h s = (case s of None \<Rightarrow> [] | Some a \<Rightarrow> map (val h) (elems T h a))"

definition slice_reach :: "'v elem \<Rightarrow> (heap \<Rightarrow> 'v \<Rightarrow> addr set) \<Rightarrow> heap \<Rightarrow> addr option \<Rightarrow> addr set" where
  "slice_reach T reach h s = (case s of None \<Rightarrow> {} | Some a \<Rightarrow> insert a (\<Union>v \<in> set (elems T h a). reach h v))"

definition ptr_value :: "'v elem \<Rightarrow> (heap \<Rightarrow> 'v \<Rightarrow> 'x) \<Rightarrow> heap \<Rightarrow> addr option \<Rightarrow> 'x option" where
  "ptr_value T val h p = map_option (\<lambda>a. val h (deref T h a)) p"

definition ptr_reach :: "'v elem \<Rightarrow> (heap \<Rightarrow> 'v \<Rightarrow> addr set) \<Rightarrow> heap \<Rightarrow> addr option \<Rightarrow> addr set" where
  "ptr_reach T reach h p = (case p of None \<Rightarrow> {} | Some a \<Rightarrow> insert a (reach h (deref T h a)))"

definition plain :: "heap \<Rightarrow> 'v \<Rightarrow> 'v" where
  "plain h v = v"

definition nowhere :: "heap \<Rightarrow> 'v \<Rightarrow> addr set" where
  "nowhere h v = {}"

definition selector_value :: "heap \<Rightarrow> APISelector_mem \<Rightarrow> APISelector" where
  "selector_value h v = \<lparr>as_Group = mas_Group v, as_Resources = slice_value strings plain h (mas_Resources v),
     as_Versions = slice_value strings plain h (mas_Versions v)\<rparr>"

definition selector_reach :: "heap \<Rightarrow> APISelector_mem \<Rightarrow> addr set" where
  "selector_reach h v = slice_reach strings nowhere h (mas_Resources v) \<union> slice_reach strings nowhere h (mas_Versions v)"

definition cluster_value :: "heap \<Rightarrow> AggregatedCluster_mem \<Rightarrow> AggregatedCluster" where
  "cluster_value h v = \<lparr>ac_Access = mac_Access v, ac_APIs = slice_value selectors selector_value h (mac_APIs v)\<rparr>"

definition cluster_reach :: "heap \<Rightarrow> AggregatedCluster_mem \<Rightarrow> addr set" where
  "cluster_reach h v = slice_reach selectors selector_reach h (mac_APIs v)"

definition spec_value :: "heap \<Rightarrow> AggregatedAPISpec_mem \<Rightarrow> AggregatedAPISpec" where
  "spec_value h v = \<lparr>sp_Image = msp_Image v, sp_ResyncInterval = ptr_value ints plain h (msp_ResyncInterval v),
     sp_Clusters = slice_value clusters cluster_value h (msp_Clusters v)\<rparr>"

definition spec_reach :: "heap \<Rightarrow> AggregatedAPISpec_mem \<Rightarrow> addr set" where
  "spec_reach h v = ptr_reach ints nowhere h (msp_ResyncInterval v) \<union> slice_reach clusters cluster_reach h (msp_Clusters v)"

definition status_value :: "heap \<Rightarrow> AggregatedAPIStatus_mem \<Rightarrow> AggregatedAPIStatus" where
  "status_value h v = \<lparr>sts_Conditions = slice_value conditions plain h (mst_Conditions v), sts_URL = mst_URL v,
     sts_KubeconfigSecret = mst_KubeconfigSecret v\<rparr>"

definition status_reach :: "heap \<Rightarrow> AggregatedAPIStatus_mem \<Rightarrow> addr set" where
  "status_reach h v = slice_reach conditions nowhere h (mst_Conditions v)"

text \<open>The metadata as a value: names, generation, whether it is being deleted, and the finalizers.\<close>

definition meta_value :: "heap \<Rightarrow> ObjectMeta_mem \<Rightarrow> (string \<times> string \<times> string \<times> int) \<times> int option \<times> string list" where
  "meta_value h v = ((mom_namespace v, mom_name v, mom_uid v, mom_generation v),
     ptr_value ints plain h (mom_deletionTimestamp v), slice_value strings plain h (mom_finalizers v))"

definition meta_reach :: "heap \<Rightarrow> ObjectMeta_mem \<Rightarrow> addr set" where
  "meta_reach h v = ptr_reach ints nowhere h (mom_deletionTimestamp v) \<union> slice_reach strings nowhere h (mom_finalizers v)"

definition api_value :: "heap \<Rightarrow> AggregatedAPI_mem \<Rightarrow> AggregatedAPI" where
  "api_value h v =
     (case meta_value h (maa_ObjectMeta v) of ((ns, name, uid, gen), deleted, fs) \<Rightarrow>
       \<lparr>aa_namespace = ns, aa_name = name, aa_uid = uid, aa_generation = gen, aa_deletionTimestamp = (deleted \<noteq> None),
        aa_finalizers = fs, aa_Spec = spec_value h (maa_Spec v), aa_Status = status_value h (maa_Status v)\<rparr>)"

definition api_reach :: "heap \<Rightarrow> AggregatedAPI_mem \<Rightarrow> addr set" where
  "api_reach h v = meta_reach h (maa_ObjectMeta v) \<union> (spec_reach h (maa_Spec v) \<union> status_reach h (maa_Status v))"

definition list_meta_value :: "heap \<Rightarrow> ListMeta_mem \<Rightarrow> string \<times> string \<times> int option" where
  "list_meta_value h v = (mlm_ResourceVersion v, mlm_Continue v, ptr_value ints plain h (mlm_RemainingItemCount v))"

definition list_meta_reach :: "heap \<Rightarrow> ListMeta_mem \<Rightarrow> addr set" where
  "list_meta_reach h v = ptr_reach ints nowhere h (mlm_RemainingItemCount v)"

definition api_list_value :: "heap \<Rightarrow> AggregatedAPIList_mem \<Rightarrow> (string \<times> string \<times> int option) \<times> AggregatedAPI list" where
  "api_list_value h v = (list_meta_value h (mal_ListMeta v), slice_value apis api_value h (mal_Items v))"

definition api_list_reach :: "heap \<Rightarrow> AggregatedAPIList_mem \<Rightarrow> addr set" where
  "api_list_reach h v = list_meta_reach h (mal_ListMeta v) \<union> slice_reach apis api_reach h (mal_Items v)"


text \<open>The heap only grows: what was allocated stays as it is.\<close>

definition grows :: "heap \<Rightarrow> heap \<Rightarrow> bool" where
  "grows h h' \<longleftrightarrow> hp_next h \<le> hp_next h' \<and> (\<forall>a < hp_next h. hp_cells h' a = hp_cells h a)"

text \<open>
  The contract of a deep copy: the value depends on the reachable cells only; the copy stands for the
  same value and reaches only memory that has been allocated for it.
\<close>

locale copier =
  fixes val :: "heap \<Rightarrow> 'v \<Rightarrow> 'x" and reach :: "heap \<Rightarrow> 'v \<Rightarrow> addr set" and copy :: "'v copy"
  assumes frame: "(\<And>a. a \<in> reach h v \<Longrightarrow> hp_cells h' a = hp_cells h a) \<Longrightarrow> val h' v = val h v \<and> reach h' v = reach h v"
    and copies: "reach h v \<subseteq> {..<hp_next h} \<Longrightarrow> copy v h = (v', h') \<Longrightarrow>
      grows h h' \<and> val h' v' = val h v \<and> reach h' v' \<subseteq> {hp_next h..<hp_next h'}"
begin

lemma kept:
  assumes "reach h v \<subseteq> {..<hp_next h}" and "grows h h'"
  shows "val h' v = val h v \<and> reach h' v = reach h v \<and> reach h' v \<subseteq> {..<hp_next h'}"
  using frame [of h v h'] assms by (fastforce simp: grows_def)

end

lemma grows_refl [simp]: "grows h h"
  by (simp add: grows_def)

lemma grows_trans: "grows h h1 \<Longrightarrow> grows h1 h2 \<Longrightarrow> grows h h2"
  by (force simp: grows_def)

text \<open>Elements whose cells can be read back.\<close>

locale copier_elem = copier val reach copy
  for val :: "heap \<Rightarrow> 'v \<Rightarrow> 'x" and reach :: "heap \<Rightarrow> 'v \<Rightarrow> addr set" and copy :: "'v copy" +
  fixes T :: "'v elem"
  assumes readable: "el_prj T (el_inj T vs) = Some vs"
begin

lemma elems_put: "elems T (put_elems T b vs h) a = (if a = b then vs else elems T h a)"
  by (simp add: elems_def put_elems_def readable)

lemma put_frame:
  assumes "b \<notin> reach h v"
  shows "val (put_elems T b vs h) v = val h v \<and> reach (put_elems T b vs h) v = reach h v"
  using assms by (intro frame) (auto simp: put_elems_def)

text \<open>The invariant of the loop over a slice at \<open>a\<close>, with the copy at \<open>b\<close> and \<open>i\<close> elements copied.\<close>

definition copied :: "heap \<Rightarrow> addr \<Rightarrow> addr \<Rightarrow> nat \<Rightarrow> heap \<Rightarrow> bool" where
  "copied h a b i h' \<longleftrightarrow>
     b = hp_next h \<and> hp_next h < hp_next h' \<and> (\<forall>c < hp_next h. hp_cells h' c = hp_cells h c) \<and>
     length (elems T h' b) = length (elems T h a) \<and>
     (\<forall>j < i. val h' (elems T h' b ! j) = val h (elems T h a ! j) \<and>
        reach h' (elems T h' b ! j) \<subseteq> {Suc b..<hp_next h'})"

lemma same_cell: "hp_cells h' a = hp_cells h a \<Longrightarrow> elems T h' a = elems T h a"
  by (simp add: elems_def)

lemma copied_step:
  assumes "copied h a b i h'" and "a < hp_next h" and "i < length (elems T h a)"
    and "reach h (elems T h a ! i) \<subseteq> {..<hp_next h}" and c: "copy (elems T h' a ! i) h' = (v, h1)"
  shows "copied h a b (Suc i) (put_elems T b ((elems T h1 b)[i := v]) h1)"
proof -
  let ?x = "elems T h a ! i"
  have b: "b = hp_next h" "b < hp_next h'" using assms(1) by (auto simp: copied_def)
  have "grows h h'" using assms(1) by (auto simp: copied_def grows_def)
  from kept [OF assms(4) this] have x: "val h' ?x = val h ?x" "reach h' ?x \<subseteq> {..<hp_next h'}" by auto
  have "elems T h' a = elems T h a" using assms(1,2) by (intro same_cell) (simp add: copied_def)
  with copies [OF x(2), of v h1] c x have g: "grows h' h1" and v: "val h1 v = val h ?x" "reach h1 v \<subseteq> {hp_next h'..<hp_next h1}"
    by simp_all
  define h2 where "h2 = put_elems T b ((elems T h1 b)[i := v]) h1"
  have at_b: "elems T h1 b = elems T h' b" using g b by (intro same_cell) (simp add: grows_def)
  have old: "val h2 (elems T h' b ! j) = val h (elems T h a ! j) \<and> reach h2 (elems T h' b ! j) \<subseteq> {Suc b..<hp_next h1}"
    if "j < i" for j
  proof -
    from assms(1) that have e: "val h' (elems T h' b ! j) = val h (elems T h a ! j)"
      "reach h' (elems T h' b ! j) \<subseteq> {Suc b..<hp_next h'}" unfolding copied_def by blast+
    then have "reach h' (elems T h' b ! j) \<subseteq> {..<hp_next h'}" by auto
    from kept [OF this g] e have e1: "val h1 (elems T h' b ! j) = val h (elems T h a ! j)"
      "reach h1 (elems T h' b ! j) \<subseteq> {Suc b..<hp_next h'}" by simp_all
    then have "b \<notin> reach h1 (elems T h' b ! j)" by auto
    from put_frame [OF this] e1 have "val h2 (elems T h' b ! j) = val h (elems T h a ! j)"
      "reach h2 (elems T h' b ! j) \<subseteq> {Suc b..<hp_next h'}" by (simp_all add: h2_def)
    moreover have "{Suc b..<hp_next h'} \<subseteq> {Suc b..<hp_next h1}" using g by (simp add: grows_def)
    ultimately show ?thesis by blast
  qed
  have "b \<notin> reach h1 v" using v(2) b by auto
  then have new: "val h2 v = val h ?x" "reach h2 v \<subseteq> {Suc b..<hp_next h1}" using put_frame v b unfolding h2_def by fastforce+
  have len: "i < length (elems T h' b)" "length (elems T h' b) = length (elems T h a)"
    using assms(1,3) unfolding copied_def by auto
  have nxt: "hp_next h2 = hp_next h1" "hp_next h' \<le> hp_next h1" using g by (simp_all add: h2_def put_elems_def grows_def)
  have cells: "\<forall>c < hp_next h. hp_cells h2 c = hp_cells h c"
    using assms(1) g b by (auto simp: h2_def put_elems_def copied_def grows_def)
  have at2: "elems T h2 b = (elems T h' b)[i := v]" by (simp add: h2_def elems_put at_b)
  have "val h2 (elems T h2 b ! j) = val h (elems T h a ! j) \<and> reach h2 (elems T h2 b ! j) \<subseteq> {Suc b..<hp_next h2}"
    if "j < Suc i" for j using that old [of j] new len nxt(1) by (cases "j = i") (simp_all add: at2)
  then show ?thesis
    unfolding h2_def [symmetric] copied_def using b nxt cells len at2 by simp
qed

lemma copied_range:
  assumes "copied h a b i h'" and "a < hp_next h" and "i \<le> length (elems T h a)"
    and "\<forall>x \<in> set (elems T h a). reach h x \<subseteq> {..<hp_next h}"
  shows "copied h a b (length (elems T h a)) (copy_range T copy a b [i..<length (elems T h a)] h')"
  using assms(1,3)
proof (induction "length (elems T h a) - i" arbitrary: i h')
  case (Suc n)
  then have i: "i < length (elems T h a)" by simp
  obtain v h1 where c: "copy (elems T h' a ! i) h' = (v, h1)" by fastforce
  have "reach h (elems T h a ! i) \<subseteq> {..<hp_next h}" using assms(4) i by simp
  from copied_step [OF Suc.prems(1) assms(2) i this c]
  have "copied h a b (length (elems T h a)) (copy_range T copy a b [Suc i..<length (elems T h a)]
      (put_elems T b ((elems T h1 b)[i := v]) h1))" using Suc.hyps i by simp
  with i c show ?case by (simp add: upt_conv_Cons)
qed simp

lemma slice_frame:
  assumes "\<And>a. a \<in> slice_reach T reach h s \<Longrightarrow> hp_cells h' a = hp_cells h a"
  shows "slice_value T val h' s = slice_value T val h s \<and> slice_reach T reach h' s = slice_reach T reach h s"
proof (cases s)
  case (Some a)
  with assms have "elems T h' a = elems T h a" by (intro same_cell) (simp add: slice_reach_def)
  moreover have "val h' x = val h x \<and> reach h' x = reach h x" if "x \<in> set (elems T h a)" for x
    using assms that Some by (intro frame) (auto simp: slice_reach_def)
  ultimately show ?thesis using Some by (simp add: slice_value_def slice_reach_def)
qed (simp add: slice_value_def slice_reach_def)

lemma slice_copies:
  assumes "slice_reach T reach h s \<subseteq> {..<hp_next h}" and "copy_slice T copy s h = (s', h')"
  shows "grows h h' \<and> slice_value T val h' s' = slice_value T val h s \<and>
    slice_reach T reach h' s' \<subseteq> {hp_next h..<hp_next h'}"
proof (cases s)
  case (Some a)
  let ?b = "hp_next h" and ?xs = "elems T h a"
  obtain h1 where made: "make_slice T (length ?xs) h = (?b, h1)" by (simp add: make_slice_def)
  have a: "a < hp_next h" "\<forall>x \<in> set ?xs. reach h x \<subseteq> {..<hp_next h}" using assms(1) Some by (auto simp: slice_reach_def)
  have at_b: "elems T h1 ?b = replicate (length ?xs) (el_zero T)" "hp_next h1 = Suc ?b"
    "\<forall>c < ?b. hp_cells h1 c = hp_cells h c"
    using made by (auto simp: make_slice_def elems_def put_elems_def readable)
  then have "copied h a ?b 0 h1" by (simp add: copied_def)
  from copied_range [OF this a(1) _ a(2)]
  have "copied h a ?b (length ?xs) (copy_range T copy a ?b [0..<length ?xs] h1)" by simp
  moreover have "elems T h1 a = ?xs" using at_b(3) a(1) by (intro same_cell) simp
  ultimately have c: "copied h a ?b (length ?xs) h'" and s': "s' = Some ?b"
    using assms(2) Some made by (auto simp: copy_slice_def)
  have "map (val h') (elems T h' ?b) = map (val h) ?xs"
    using c by (auto intro!: nth_equalityI simp: copied_def)
  moreover have "reach h' x \<subseteq> {?b..<hp_next h'}" if "x \<in> set (elems T h' ?b)" for x
  proof -
    from that obtain j where "j < length (elems T h' ?b)" "x = elems T h' ?b ! j" by (metis in_set_conv_nth)
    then have "reach h' x \<subseteq> {Suc ?b..<hp_next h'}" using c by (simp add: copied_def)
    then show ?thesis by (auto dest: Suc_leD)
  qed
  moreover have "grows h h'" "?b < hp_next h'" using c by (auto simp: copied_def grows_def)
  ultimately show ?thesis using Some s' by (auto simp: slice_value_def slice_reach_def)
qed (use assms in \<open>auto simp: copy_slice_def slice_value_def slice_reach_def\<close>)

lemma slice_copier: "copier (slice_value T val) (slice_reach T reach) (copy_slice T copy)"
  by unfold_locales (use slice_frame slice_copies in blast)+

lemma ptr_frame:
  assumes "\<And>a. a \<in> ptr_reach T reach h p \<Longrightarrow> hp_cells h' a = hp_cells h a"
  shows "ptr_value T val h' p = ptr_value T val h p \<and> ptr_reach T reach h' p = ptr_reach T reach h p"
proof (cases p)
  case (Some a)
  with assms have "elems T h' a = elems T h a" by (intro same_cell) (simp add: ptr_reach_def)
  then have d: "deref T h' a = deref T h a" by (simp add: deref_def)
  have "val h' (deref T h a) = val h (deref T h a) \<and> reach h' (deref T h a) = reach h (deref T h a)"
    using assms Some by (intro frame) (auto simp: ptr_reach_def)
  then show ?thesis using Some d by (simp add: ptr_value_def ptr_reach_def)
qed (simp add: ptr_value_def ptr_reach_def)

lemma ptr_copies:
  assumes "ptr_reach T reach h p \<subseteq> {..<hp_next h}" and "copy_ptr T copy p h = (p', h')"
  shows "grows h h' \<and> ptr_value T val h' p' = ptr_value T val h p \<and> ptr_reach T reach h' p' \<subseteq> {hp_next h..<hp_next h'}"
proof (cases p)
  case (Some a)
  let ?b = "hp_next h" and ?x = "deref T h a"
  obtain h1 where made: "make_slice T 1 h = (?b, h1)" by (simp add: make_slice_def)
  have x: "a < ?b" "reach h ?x \<subseteq> {..<hp_next h}" using assms(1) Some by (auto simp: ptr_reach_def)
  have g1: "grows h h1" "hp_next h1 = Suc ?b" using made by (auto simp: make_slice_def put_elems_def grows_def)
  with x(1) have "elems T h1 a = elems T h a" by (intro same_cell) (simp add: grows_def)
  then have d: "deref T h1 a = ?x" by (simp add: deref_def)
  obtain v h2 where c: "copy ?x h1 = (v, h2)" by fastforce
  from kept [OF x(2) g1(1)] copies [OF _ c] have g2: "grows h1 h2" and v: "val h2 v = val h ?x"
    "reach h2 v \<subseteq> {Suc ?b..<hp_next h2}" using g1(2) by auto
  have res: "p' = Some ?b" "h' = put_elems T ?b [v] h2" using assms(2) Some made d c by (auto simp: copy_ptr_def)
  have "?b \<notin> reach h2 v" using v(2) by auto
  then have "val h' v = val h ?x" "reach h' v \<subseteq> {Suc ?b..<hp_next h2}" using put_frame v res(2) by fastforce+
  moreover have "deref T h' ?b = v" by (simp add: res(2) deref_def elems_put)
  moreover have "grows h h'" "hp_next h' = hp_next h2" "?b < hp_next h2"
    using g1 g2 by (auto simp: res(2) grows_def put_elems_def)
  ultimately show ?thesis using Some res(1) by (auto simp: ptr_value_def ptr_reach_def dest: Suc_leD)
qed (use assms in \<open>auto simp: copy_ptr_def ptr_value_def ptr_reach_def\<close>)

lemma ptr_copier: "copier (ptr_value T val) (ptr_reach T reach) (copy_ptr T copy)"
  by unfold_locales (use ptr_frame ptr_copies in blast)+

end

text \<open>The cells of every type can be read back.\<close>

lemma cells_readable [simp]:
  "el_prj strings (el_inj strings v1) = Some v1" "el_prj ints (el_inj ints v2) = Some v2"
  "el_prj selectors (el_inj selectors v3) = Some v3" "el_prj accesses (el_inj accesses v4) = Some v4"
  "el_prj clusters (el_inj clusters v5) = Some v5" "el_prj conditions (el_inj conditions v6) = Some v6"
  "el_prj specs (el_inj specs v7) = Some v7" "el_prj statuses (el_inj statuses v8) = Some v8"
  "el_prj apis (el_inj apis v9) = Some v9" "el_prj api_lists (el_inj api_lists v10) = Some v10"
  by (simp_all add: strings_def ints_def selectors_def accesses_def clusters_def conditions_def specs_def
      statuses_def apis_def api_lists_def)

section \<open>The copies of structs\<close>

text \<open>Two fields copied one after the other, and a struct copied by assignment and then its fields.\<close>

lemma copier_pair:
  assumes "copier v1 r1 c1" and "copier v2 r2 c2"
  shows "copier (\<lambda>h (a, b). (v1 h a, v2 h b)) (\<lambda>h (a, b). r1 h a \<union> r2 h b)
    (\<lambda>(a, b) h. case c1 a h of (a', h1) \<Rightarrow> (case c2 b h1 of (b', h2) \<Rightarrow> ((a', b'), h2)))"
proof
  fix h h' :: heap and v :: "'a \<times> 'c"
  assume "\<And>a. a \<in> (case v of (a, b) \<Rightarrow> r1 h a \<union> r2 h b) \<Longrightarrow> hp_cells h' a = hp_cells h a"
  then show "(case v of (a, b) \<Rightarrow> (v1 h' a, v2 h' b)) = (case v of (a, b) \<Rightarrow> (v1 h a, v2 h b)) \<and>
      (case v of (a, b) \<Rightarrow> r1 h' a \<union> r2 h' b) = (case v of (a, b) \<Rightarrow> r1 h a \<union> r2 h b)"
    using copier.frame [OF assms(1), of h "fst v" h'] copier.frame [OF assms(2), of h "snd v" h'] by (cases v) auto
next
  fix h h' :: heap and v v' :: "'a \<times> 'c"
  assume reach: "(case v of (a, b) \<Rightarrow> r1 h a \<union> r2 h b) \<subseteq> {..<hp_next h}"
    and c: "(case v of (a, b) \<Rightarrow> \<lambda>h. case c1 a h of (a', h1) \<Rightarrow> (case c2 b h1 of (b', h2) \<Rightarrow> ((a', b'), h2))) h = (v', h')"
  obtain a b where v: "v = (a, b)" by fastforce
  obtain a' h1 where c1: "c1 a h = (a', h1)" by fastforce
  obtain b' h2 where c2: "c2 b h1 = (b', h2)" by fastforce
  have res: "v' = (a', b')" "h' = h2" using c v c1 c2 by auto
  have "r1 h a \<subseteq> {..<hp_next h}" and rb: "r2 h b \<subseteq> {..<hp_next h}" using reach v by auto
  from copier.copies [OF assms(1) this(1) c1] have a: "grows h h1" "v1 h1 a' = v1 h a"
    "r1 h1 a' \<subseteq> {hp_next h..<hp_next h1}" by auto
  from copier.kept [OF assms(2) rb a(1)] copier.copies [OF assms(2) _ c2] have b: "grows h1 h2" "v2 h2 b' = v2 h b"
    "r2 h2 b' \<subseteq> {hp_next h1..<hp_next h2}" by auto
  have "r1 h1 a' \<subseteq> {..<hp_next h1}" using a(3) by auto
  from copier.kept [OF assms(1) this b(1)] a have "v1 h2 a' = v1 h a" "r1 h2 a' \<subseteq> {hp_next h..<hp_next h1}" by auto
  moreover have "hp_next h \<le> hp_next h1" "hp_next h1 \<le> hp_next h2" using a(1) b(1) by (auto simp: grows_def)
  ultimately show "grows h h' \<and> (case v' of (a, b) \<Rightarrow> (v1 h' a, v2 h' b)) = (case v of (a, b) \<Rightarrow> (v1 h a, v2 h b)) \<and>
      (case v' of (a, b) \<Rightarrow> r1 h' a \<union> r2 h' b) \<subseteq> {hp_next h..<hp_next h'}"
    using grows_trans [OF a(1) b(1)] b(2,3) unfolding res v by auto
qed

lemma copier_struct:
  assumes "copier val reach cp" and "\<And>h r. val' h r = mk (val h (get r)) r" and "\<And>h r. reach' h r = reach h (get r)"
    and "\<And>r h. cp' r h = (case cp (get r) h of (v, h') \<Rightarrow> (put v r, h'))"
    and "\<And>v r. get (put v r) = v" and "\<And>v r x. mk x (put v r) = mk x r"
  shows "copier val' reach' cp'"
proof
  fix h h' :: heap and v
  assume "\<And>a. a \<in> reach' h v \<Longrightarrow> hp_cells h' a = hp_cells h a"
  with copier.frame [OF assms(1), of h "get v" h'] show "val' h' v = val' h v \<and> reach' h' v = reach' h v"
    by (simp add: assms(2,3))
next
  fix h h' :: heap and v v'
  assume r: "reach' h v \<subseteq> {..<hp_next h}" and c: "cp' v h = (v', h')"
  obtain x h1 where x: "cp (get v) h = (x, h1)" by fastforce
  with c have "v' = put x v" "h' = h1" by (simp_all add: assms(4))
  with copier.copies [OF assms(1) _ x] r show "grows h h' \<and> val' h' v' = val' h v \<and> reach' h' v' \<subseteq> {hp_next h..<hp_next h'}"
    by (simp add: assms(2,3,5,6))
qed

lemma copier_elemI: "copier val reach cp \<Longrightarrow> (\<And>vs. el_prj T (el_inj T vs) = Some vs) \<Longrightarrow> copier_elem val reach cp T"
  by (simp add: copier_elem_def copier_elem_axioms_def)

lemma plain_copier: "copier plain nowhere assign"
  by unfold_locales (auto simp: plain_def nowhere_def assign_def)

interpretation string_elems: copier_elem plain nowhere assign strings
  by (rule copier_elemI [OF plain_copier]) simp

interpretation int_elems: copier_elem plain nowhere assign ints
  by (rule copier_elemI [OF plain_copier]) simp

lemma selector_copier: "copier selector_value selector_reach APISelector_DeepCopyInto"
  by (rule copier_struct [OF copier_pair [OF string_elems.slice_copier string_elems.slice_copier],
        where get = "\<lambda>r. (mas_Resources r, mas_Versions r)"
          and put = "\<lambda>(rs, vs) r. r\<lparr>mas_Resources := rs, mas_Versions := vs\<rparr>"
          and mk = "\<lambda>(rs, vs) r. \<lparr>as_Group = mas_Group r, as_Resources = rs, as_Versions = vs\<rparr>"])
    (auto simp: selector_value_def selector_reach_def APISelector_DeepCopyInto_def split: prod.splits)

interpretation selector_elems: copier_elem selector_value selector_reach APISelector_DeepCopyInto selectors
  by (rule copier_elemI [OF selector_copier]) simp

lemma cluster_copier: "copier cluster_value cluster_reach AggregatedCluster_DeepCopyInto"
  by (rule copier_struct [OF selector_elems.slice_copier, where get = mac_APIs and put = "\<lambda>s r. r\<lparr>mac_APIs := s\<rparr>"
          and mk = "\<lambda>s r. \<lparr>ac_Access = mac_Access r, ac_APIs = s\<rparr>"])
    (auto simp: cluster_value_def cluster_reach_def AggregatedCluster_DeepCopyInto_def)

interpretation cluster_elems: copier_elem cluster_value cluster_reach AggregatedCluster_DeepCopyInto clusters
  by (rule copier_elemI [OF cluster_copier]) simp

lemma spec_copier: "copier spec_value spec_reach AggregatedAPISpec_DeepCopyInto"
  by (rule copier_struct [OF copier_pair [OF int_elems.ptr_copier cluster_elems.slice_copier],
        where get = "\<lambda>r. (msp_ResyncInterval r, msp_Clusters r)"
          and put = "\<lambda>(d, cs) r. r\<lparr>msp_ResyncInterval := d, msp_Clusters := cs\<rparr>"
          and mk = "\<lambda>(d, cs) r. \<lparr>sp_Image = msp_Image r, sp_ResyncInterval = d, sp_Clusters = cs\<rparr>"])
    (auto simp: spec_value_def spec_reach_def AggregatedAPISpec_DeepCopyInto_def split: prod.splits)

text \<open>The library copies its own types as deeply.\<close>

definition meta_laws :: "meta_lib \<Rightarrow> bool" where
  "meta_laws L \<longleftrightarrow> copier meta_value meta_reach (ml_ObjectMeta L) \<and>
     copier list_meta_value list_meta_reach (ml_ListMeta L) \<and> copier plain nowhere (ml_Condition L)"

lemma status_copier:
  assumes "meta_laws L"
  shows "copier status_value status_reach (AggregatedAPIStatus_DeepCopyInto L)"
proof -
  have "copier plain nowhere (ml_Condition L)" using assms by (simp add: meta_laws_def)
  then have "copier_elem plain nowhere (ml_Condition L) conditions" by (rule copier_elemI) simp
  from copier_elem.slice_copier [OF this] show ?thesis
    by (rule copier_struct [where get = mst_Conditions and put = "\<lambda>s r. r\<lparr>mst_Conditions := s\<rparr>"
          and mk = "\<lambda>s r. \<lparr>sts_Conditions = s, sts_URL = mst_URL r, sts_KubeconfigSecret = mst_KubeconfigSecret r\<rparr>"])
      (auto simp: status_value_def status_reach_def AggregatedAPIStatus_DeepCopyInto_def)
qed

lemma api_copier:
  assumes "meta_laws L"
  shows "copier api_value api_reach (AggregatedAPI_DeepCopyInto L)"
proof -
  have "copier meta_value meta_reach (ml_ObjectMeta L)" using assms by (simp add: meta_laws_def)
  from copier_pair [OF this copier_pair [OF spec_copier status_copier [OF assms]]] show ?thesis
    by (rule copier_struct [where get = "\<lambda>r. (maa_ObjectMeta r, maa_Spec r, maa_Status r)"
          and put = "\<lambda>(om, sp, sts) r. r\<lparr>maa_ObjectMeta := om, maa_Spec := sp, maa_Status := sts\<rparr>"
          and mk = "\<lambda>(((ns, name, uid, gen), deleted, fs), sp, sts) r. \<lparr>aa_namespace = ns, aa_name = name, aa_uid = uid,
            aa_generation = gen, aa_deletionTimestamp = (deleted \<noteq> None), aa_finalizers = fs, aa_Spec = sp, aa_Status = sts\<rparr>"])
      (auto simp: api_value_def api_reach_def AggregatedAPI_DeepCopyInto_def split: prod.splits)
qed

lemma api_list_copier:
  assumes "meta_laws L"
  shows "copier api_list_value api_list_reach (AggregatedAPIList_DeepCopyInto L)"
proof -
  have "copier list_meta_value list_meta_reach (ml_ListMeta L)" using assms by (simp add: meta_laws_def)
  moreover have "copier_elem api_value api_reach (AggregatedAPI_DeepCopyInto L) apis"
    by (rule copier_elemI [OF api_copier [OF assms]]) simp
  ultimately show ?thesis
    by (intro copier_struct [OF copier_pair [OF _ copier_elem.slice_copier],
          where get = "\<lambda>r. (mal_ListMeta r, mal_Items r)"
          and put = "\<lambda>(lm, is) r. r\<lparr>mal_ListMeta := lm, mal_Items := is\<rparr>" and mk = "\<lambda>x r. x"])
      (auto simp: api_list_value_def api_list_reach_def AggregatedAPIList_DeepCopyInto_def split: prod.splits)
qed

section \<open>Properties\<close>

text \<open>
  C14. The reconciler keeps the object it has read and works on a deep copy. Both stand for the same value;
  whatever is written afterwards to the memory of the copy (or newer memory) leaves the original as it
  was read, so that the comparison of the two at the end of the pass sees every change; and
  whatever is written to the memory of the original leaves the copy as it was.
\<close>

theorem deepcopy_independent:
  assumes "meta_laws L" and "ptr_reach apis api_reach h (Some a) \<subseteq> {..<hp_next h}"
    and "AggregatedAPI_DeepCopy L (Some a) h = (p, h')"
  shows "ptr_value apis api_value h' p = ptr_value apis api_value h (Some a) \<and>
    (\<forall>h''. (\<forall>c < hp_next h. hp_cells h'' c = hp_cells h' c) \<longrightarrow>
       ptr_value apis api_value h'' (Some a) = ptr_value apis api_value h (Some a)) \<and>
    (\<forall>h''. (\<forall>c \<ge> hp_next h. hp_cells h'' c = hp_cells h' c) \<longrightarrow>
       ptr_value apis api_value h'' p = ptr_value apis api_value h (Some a))"
proof -
  have "copier_elem api_value api_reach (AggregatedAPI_DeepCopyInto L) apis"
    by (rule copier_elemI [OF api_copier [OF assms(1)]]) simp
  then have deep: "copier (ptr_value apis api_value) (ptr_reach apis api_reach) (AggregatedAPI_DeepCopy L)"
    unfolding AggregatedAPI_DeepCopy_def by (rule copier_elem.ptr_copier)
  from copier.copies [OF deep assms(2,3)] have g: "grows h h'"
    and c: "ptr_value apis api_value h' p = ptr_value apis api_value h (Some a)"
    "ptr_reach apis api_reach h' p \<subseteq> {hp_next h..<hp_next h'}" by auto
  have "ptr_value apis api_value h'' (Some a) = ptr_value apis api_value h (Some a)"
    if "\<forall>c < hp_next h. hp_cells h'' c = hp_cells h' c" for h''
    using copier.frame [OF deep, of h "Some a" h''] that g assms(2) by (fastforce simp: grows_def)
  moreover have "ptr_value apis api_value h'' p = ptr_value apis api_value h' p"
    if "\<forall>c \<ge> hp_next h. hp_cells h'' c = hp_cells h' c" for h''
    using copier.frame [OF deep, of h' p h''] that c(2) by fastforce
  ultimately show ?thesis using c(1) by simp
qed

text \<open>A library that copies its types, and an object with one condition, of which the cell is shared.\<close>

definition demo_ObjectMeta :: "ObjectMeta_mem copy" where
  "demo_ObjectMeta v h =
     (case copy_ptr ints assign (mom_deletionTimestamp v) h of (d, h1) \<Rightarrow>
       (case copy_slice strings assign (mom_finalizers v) h1 of (fs, h2) \<Rightarrow>
         (v\<lparr>mom_deletionTimestamp := d, mom_finalizers := fs\<rparr>, h2)))"

definition demo_ListMeta :: "ListMeta_mem copy" where
  "demo_ListMeta v h =
     (case copy_ptr ints assign (mlm_RemainingItemCount v) h of (n, h1) \<Rightarrow> (v\<lparr>mlm_RemainingItemCount := n\<rparr>, h1))"

definition demo_meta :: meta_lib where
  "demo_meta = \<lparr>ml_ObjectMeta = demo_ObjectMeta, ml_ListMeta = demo_ListMeta, ml_Condition = assign\<rparr>"

lemma demo_meta_laws: "meta_laws demo_meta"
proof -
  have "copier meta_value meta_reach demo_ObjectMeta"
    by (rule copier_struct [OF copier_pair [OF int_elems.ptr_copier string_elems.slice_copier],
          where get = "\<lambda>r. (mom_deletionTimestamp r, mom_finalizers r)"
            and put = "\<lambda>(d, fs) r. r\<lparr>mom_deletionTimestamp := d, mom_finalizers := fs\<rparr>"
            and mk = "\<lambda>(d, fs) r. ((mom_namespace r, mom_name r, mom_uid r, mom_generation r), d, fs)"])
      (auto simp: meta_value_def meta_reach_def demo_ObjectMeta_def split: prod.splits)
  moreover have "copier list_meta_value list_meta_reach demo_ListMeta"
    by (rule copier_struct [OF int_elems.ptr_copier, where get = mlm_RemainingItemCount
          and put = "\<lambda>n r. r\<lparr>mlm_RemainingItemCount := n\<rparr>"
          and mk = "\<lambda>n r. (mlm_ResourceVersion r, mlm_Continue r, n)"])
      (auto simp: list_meta_value_def list_meta_reach_def demo_ListMeta_def)
  ultimately show ?thesis using plain_copier by (simp add: meta_laws_def demo_meta_def)
qed

definition demo_heap :: heap where
  "demo_heap =
     \<lparr>hp_cells = [0 \<mapsto> APIs [(el_zero apis)\<lparr>maa_Status := (el_zero statuses)\<lparr>mst_Conditions := Some 1\<rparr>\<rparr>],
        1 \<mapsto> Conditions [el_zero conditions]], hp_next = 2\<rparr>"

theorem deepcopy_independent_witness:
  "\<exists>p h'. AggregatedAPI_DeepCopy demo_meta (Some 0) demo_heap = (p, h') \<and>
     ptr_value apis api_value (put_elems conditions 1 [] h') p = ptr_value apis api_value demo_heap (Some 0)"
proof -
  obtain p h' where run: "AggregatedAPI_DeepCopy demo_meta (Some 0) demo_heap = (p, h')" by fastforce
  have "ptr_reach apis api_reach demo_heap (Some 0) \<subseteq> {..<hp_next demo_heap}"
    by (simp add: ptr_reach_def api_reach_def meta_reach_def spec_reach_def status_reach_def slice_reach_def deref_def
        elems_def nowhere_def demo_heap_def apis_def statuses_def specs_def conditions_def no_ObjectMeta_def)
  from deepcopy_independent [OF demo_meta_laws this run]
  have "ptr_value apis api_value (put_elems conditions 1 [] h') p = ptr_value apis api_value demo_heap (Some 0)"
    by (elim conjE allE [of _ "put_elems conditions 1 [] h'"]) (simp add: put_elems_def demo_heap_def)
  with run show ?thesis by blast
qed

end
