(* ===== verification/Scheme.thy ===== *)
theory Scheme
  imports Aggregator
begin

text \<open>
  What is registered with the schemes of \<open>k8s.io/apimachinery\<close>: \<open>newScheme\<close> and \<open>newServerScheme\<close> of
  \<open>pkg/apiserver/scheme.go\<close> (defined in \<open>Install\<close>), \<open>apis/v1alpha1/groupversion.go\<close>, the \<open>init\<close>
  functions of \<open>pkg/register\<close> and \<open>pkg/apiserver/protobuf.go\<close>, and whether a scheme accepts it.
\<close>

section \<open>Definitions\<close>

text \<open>\<open>AddKnownTypes\<close> registers each type under its Go name.\<close>

definition addKnownTypes :: "registration list \<Rightarrow> registration list" where
  "addKnownTypes scheme =
     scheme @ [AddKnownTypeWithName (WithKind API_GroupVersion ''AggregatedAPI'') ''*v1alpha1.AggregatedAPI'',
       AddKnownTypeWithName (WithKind API_GroupVersion ''AggregatedAPIList'') ''*v1alpha1.AggregatedAPIList'',
       AddToGroupVersion API_GroupVersion]"

text \<open>
  The \<open>init\<close> functions; \<open>utilruntime.Must\<close> panics (\<open>None\<close>) on an error. The \<open>AddToScheme\<close> of the
  libraries are parameters.
\<close>

type_synonym add_to_scheme = "registration list \<Rightarrow> registration list result"

definition Must :: "'a result \<Rightarrow> 'a option" where
  "Must r = (case r of Inl err \<Rightarrow> None | Inr x \<Rightarrow> Some x)"

definition register_init :: "add_to_scheme \<Rightarrow> registration list \<Rightarrow> registration list option" where
  "register_init apiextensionsAddToScheme scheme = Must (apiextensionsAddToScheme (addKnownTypes scheme))"

definition typedScheme_init :: "add_to_scheme \<Rightarrow> add_to_scheme \<Rightarrow> registration list option" where
  "typedScheme_init clientgoAddToScheme apiextensionsAddToScheme =
     Option.bind (Must (clientgoAddToScheme [])) (\<lambda>scheme. Must (apiextensionsAddToScheme scheme))"

text \<open>
  A scheme: adding a type may panic (\<open>None\<close>); \<open>sc_TypeOf\<close> is the type an object of a kind is created
  with; \<open>sc_MetaTypes\<close> is what \<open>metav1.AddToGroupVersion\<close> adds.
\<close>

record 's scheme_lib =
  sc_New :: 's
  sc_Add :: "'s \<Rightarrow> group_version_kind \<Rightarrow> string \<Rightarrow> 's option"
  sc_TypeOf :: "'s \<Rightarrow> group_version_kind \<Rightarrow> string option"
  sc_MetaTypes :: "group_version \<Rightarrow> (group_version_kind \<times> string) list"

definition known_types :: "'s scheme_lib \<Rightarrow> registration list \<Rightarrow> (group_version_kind \<times> string) list" where
  "known_types S regs = concat (map (\<lambda>r. case r of
     AddKnownTypeWithName k t \<Rightarrow> [(k, t)] | AddToGroupVersion gv \<Rightarrow> sc_MetaTypes S gv) regs)"

fun add_types :: "'s scheme_lib \<Rightarrow> (group_version_kind \<times> string) list \<Rightarrow> 's \<Rightarrow> 's option" where
  "add_types S [] s = Some s"
| "add_types S ((k, t) # kts) s = (case sc_Add S s k t of None \<Rightarrow> None | Some s' \<Rightarrow> add_types S kts s')"

definition build_scheme :: "'s scheme_lib \<Rightarrow> registration list \<Rightarrow> 's option" where
  "build_scheme S regs = add_types S (known_types S regs) (sc_New S)"

section \<open>Specification\<close>

text \<open>
  As documented, a kind is registered once: a second registration with the same type changes nothing,
  with another type it panics.
\<close>

definition scheme_laws :: "'s scheme_lib \<Rightarrow> bool" where
  "scheme_laws S \<longleftrightarrow> (\<forall>k. sc_TypeOf S (sc_New S) k = None) \<and>
     (\<forall>s k t. case sc_TypeOf S s k of
        None \<Rightarrow> \<exists>s'. sc_Add S s k t = Some s' \<and> sc_TypeOf S s' = (sc_TypeOf S s)(k \<mapsto> t)
      | Some t' \<Rightarrow> if t' = t then \<exists>s'. sc_Add S s k t = Some s' \<and> sc_TypeOf S s' = sc_TypeOf S s else sc_Add S s k t = None)"

definition UnstructuredType :: string where
  "UnstructuredType = ''*unstructured.Unstructured''"

definition UnstructuredListType :: string where
  "UnstructuredListType = ''*unstructured.UnstructuredList''"

text \<open>The meta types of all group versions go together, and none of them is an unstructured type.\<close>

definition meta_types_ok :: "'s scheme_lib \<Rightarrow> bool" where
  "meta_types_ok S \<longleftrightarrow> single_valued (\<Union>gv. set (sc_MetaTypes S gv)) \<and>
     (\<forall>gv. \<forall>(k, t) \<in> set (sc_MetaTypes S gv). t \<noteq> UnstructuredType \<and> t \<noteq> UnstructuredListType)"

definition list_kind :: "ServedResource \<Rightarrow> group_version_kind" where
  "list_kind r = WithKind (GVK_GroupVersion (sr_Kind r)) (gvk_kind (sr_Kind r) @ ''List'')"

definition meta_kinds :: "'s scheme_lib \<Rightarrow> ServedResource list \<Rightarrow> group_version_kind set" where
  "meta_kinds S rs = fst ` (set (sc_MetaTypes S \<lparr>gv_group = '''', gv_version = ''v1''\<rparr>) \<union>
     (\<Union>r \<in> set rs. set (sc_MetaTypes S (GVK_GroupVersion (sr_Kind r)))))"

section \<open>Lemmas\<close>

definition types_in :: "'s scheme_lib \<Rightarrow> 's \<Rightarrow> (group_version_kind \<times> string) set" where
  "types_in S s = {(k, t). sc_TypeOf S s k = Some t}"

lemma types_in_single: "single_valued (types_in S s)"
  by (simp add: types_in_def single_valued_def)

lemma add_type:
  assumes "scheme_laws S"
  shows "case sc_Add S s k t of None \<Rightarrow> \<not> single_valued (insert (k, t) (types_in S s))
    | Some s' \<Rightarrow> types_in S s' = insert (k, t) (types_in S s)"
proof -
  have law: "case sc_TypeOf S s k of
      None \<Rightarrow> \<exists>s'. sc_Add S s k t = Some s' \<and> sc_TypeOf S s' = (sc_TypeOf S s)(k \<mapsto> t)
    | Some t' \<Rightarrow> if t' = t then \<exists>s'. sc_Add S s k t = Some s' \<and> sc_TypeOf S s' = sc_TypeOf S s else sc_Add S s k t = None"
    using assms unfolding scheme_laws_def by blast
  show ?thesis
  proof (cases "sc_TypeOf S s k")
    case None
    with law show ?thesis by (auto simp: types_in_def split: if_splits)
  next
    case (Some t')
    with law show ?thesis by (cases "t' = t") (auto simp: types_in_def single_valued_def)
  qed
qed

lemma add_types_spec:
  assumes "scheme_laws S"
  shows "case add_types S kts s of None \<Rightarrow> \<not> single_valued (set kts \<union> types_in S s)
    | Some s' \<Rightarrow> types_in S s' = set kts \<union> types_in S s"
proof (induction kts arbitrary: s)
  case (Cons kt kts)
  obtain k t where kt: "kt = (k, t)" by fastforce
  show ?case
  proof (cases "sc_Add S s k t")
    case None
    with add_type [OF assms, where s = s and k = k and t = t] have "\<not> single_valued (insert (k, t) (types_in S s))" by simp
    then have "\<not> single_valued (set (kt # kts) \<union> types_in S s)" using kt by (auto simp: single_valued_def)
    with None kt show ?thesis by simp
  next
    case (Some s1)
    with add_type [OF assms, where s = s and k = k and t = t] have "types_in S s1 = insert (k, t) (types_in S s)" by simp
    with Cons.IH [of s1] Some kt show ?thesis by (auto split: option.splits)
  qed
qed simp

lemma build_scheme_spec:
  assumes "scheme_laws S"
  shows "case build_scheme S regs of None \<Rightarrow> \<not> single_valued (set (known_types S regs))
    | Some s \<Rightarrow> types_in S s = set (known_types S regs)"
proof -
  have "types_in S (sc_New S) = {}" using assms by (simp add: types_in_def scheme_laws_def)
  with add_types_spec [OF assms, of "known_types S regs" "sc_New S"] show ?thesis
    by (simp add: build_scheme_def split: option.splits)
qed

lemma known_newScheme:
  "set (known_types S (newScheme rs)) =
     set (sc_MetaTypes S \<lparr>gv_group = '''', gv_version = ''v1''\<rparr>) \<union>
     (\<Union>r \<in> set rs. {(sr_Kind r, UnstructuredType), (list_kind r, UnstructuredListType)} \<union>
        set (sc_MetaTypes S (GVK_GroupVersion (sr_Kind r))))"
  by (auto simp: known_types_def newScheme_def list_kind_def UnstructuredType_def UnstructuredListType_def)

lemma single_valued_union:
  assumes "single_valued M" and "\<And>k t. (k, t) \<in> M \<Longrightarrow> t \<noteq> u \<and> t \<noteq> l" and "u \<noteq> l"
  shows "single_valued (M \<union> (\<lambda>r. (f r, u)) ` A \<union> (\<lambda>r. (g r, l)) ` A) \<longleftrightarrow>
    (\<forall>r \<in> A. \<forall>r' \<in> A. f r \<noteq> g r') \<and> (\<forall>r \<in> A. f r \<notin> fst ` M \<and> g r \<notin> fst ` M)"
    (is "single_valued ?R \<longleftrightarrow> ?ok")
proof
  assume sv: "single_valued ?R"
  have "f r \<noteq> g r'" if "r \<in> A" "r' \<in> A" for r r'
  proof
    assume eq: "f r = g r'"
    have "(f r, u) \<in> ?R" "(g r', l) \<in> ?R" using that by auto
    with sv eq have "u = l" by (auto dest: single_valuedD)
    with assms(3) show False by simp
  qed
  moreover have "f r \<notin> fst ` M \<and> g r \<notin> fst ` M" if "r \<in> A" for r
  proof -
    have "k \<notin> fst ` M" if "(k, x) \<in> ?R" "x = u \<or> x = l" for k x
    proof
      assume "k \<in> fst ` M"
      then obtain y where "(k, y) \<in> M" by auto
      moreover from this have "(k, y) \<in> ?R" by blast
      ultimately show False using single_valuedD [OF sv that(1)] assms(2) that(2) by metis
    qed
    moreover have "(f r, u) \<in> ?R" "(g r, l) \<in> ?R" using that by auto
    ultimately show ?thesis by metis
  qed
  ultimately show ?ok by blast
next
  assume ok: ?ok
  show "single_valued ?R"
  proof (rule single_valuedI)
    fix k t t'
    assume "(k, t) \<in> ?R" "(k, t') \<in> ?R"
    moreover have "f r \<noteq> k \<and> g r \<noteq> k" if "(k, x) \<in> M" "r \<in> A" for x r using ok that by force
    moreover have "f r \<noteq> g r'" if "r \<in> A" "r' \<in> A" for r r' using ok that by blast
    ultimately show "t = t'" using single_valuedD [OF assms(1)] by (elim UnE imageE) (metis Pair_inject)+
  qed
qed

section \<open>Properties\<close>


definition demo_scheme :: "(group_version_kind \<rightharpoonup> string) scheme_lib" where
  "demo_scheme =
     \<lparr>sc_New = Map.empty,
      sc_Add = (\<lambda>s k t. case s k of None \<Rightarrow> Some (s(k \<mapsto> t)) | Some t' \<Rightarrow> if t' = t then Some s else None),
      sc_TypeOf = (\<lambda>s. s), sc_MetaTypes = (\<lambda>gv. [(WithKind gv ''WatchEvent'', ''*v1.WatchEvent'')])\<rparr>"

text \<open>Two clusters whose offers go together, but not in one scheme.\<close>

definition widget :: "string \<Rightarrow> ServedResource" where
  "widget k = \<lparr>sr_GVR = WithResource \<lparr>gv_group = ''apps'', gv_version = ''v1''\<rparr> k,
     sr_Kind = WithKind \<lparr>gv_group = ''apps'', gv_version = ''v1''\<rparr> k, sr_Namespaced = True, sr_Singular = '''',
     sr_Status = False, sr_Clusters = [''east'']\<rparr>"


text \<open>The types of this repository are known to the scheme of client-go after the \<open>init\<close> of \<open>pkg/register\<close>.\<close>

lemma register_init_types:
  assumes "register_init add regs = Some regs'" and "\<And>r r'. add r = Inr r' \<Longrightarrow> set r \<subseteq> set r'"
  shows "(WithKind API_GroupVersion ''AggregatedAPI'', ''*v1alpha1.AggregatedAPI'') \<in> set (known_types S regs')"
proof -
  have "set (addKnownTypes regs) \<subseteq> set regs'"
    using assms by (auto simp: register_init_def Must_def split: sum.splits)
  then have "AddKnownTypeWithName (WithKind API_GroupVersion ''AggregatedAPI'') ''*v1alpha1.AggregatedAPI'' \<in> set regs'"
    by (auto simp: addKnownTypes_def)
  then show ?thesis by (force simp: known_types_def)
qed

end
