(* ===== verification/Spec2Isabelle.thy ===== *)
theory Spec2Isabelle
  imports Catalog Commands Codec Child DeepCopy Scheme
begin

text \<open>
  A verification of the aggregated-apiserver-operator.

  \<^bold>\<open>The program.\<close> An \<open>AggregatedAPI\<close> object names member clusters and the APIs to serve from each. The
  operator (\<open>cmd/operator\<close>, \<open>pkg/controllers/operator\<close>) runs one api-aggregator workload per object.
  That workload (\<open>cmd/api-aggregator\<close>) has a controller (\<open>pkg/controllers/api-aggregator\<close>) that
  registers the member clusters of its object on an API server (\<open>pkg/apiserver\<close>); the server merges what
  the clusters offer, installs one storage (\<open>pkg/apiserver/storage\<close>) per resource, and the storages
  read from, write to and watch all clusters as if they were one.

  \<^bold>\<open>Theories, bottom up.\<close>
  \<^item> \<open>Prelude\<close>: Go errors (\<open>go_error\<close>, wrapping, joining, \<open>errors.As\<close>), calls that may fail and change
    the world (\<open>io\<close>), strings, \<open>fmt\<close>, sorting; the locales \<open>inductive_invariant\<close> and \<open>simulation\<close>.
    \<open>Duration\<close> and \<open>Flags\<close>: durations and command lines of the standard library.
  \<^item> \<open>Kube\<close>: identifiers, unstructured objects, requests, and the interfaces of client-go, a record of
    functions each. \<open>Metadata\<close> (\<open>storage/metadata.go\<close>): the cluster marks on objects and the split of
    label selectors. \<open>Fanout\<close>: \<open>errgroup\<close>, run in an arbitrary order of completion.
  \<^item> \<open>Storage\<close>, \<open>Reader\<close>, \<open>Writer\<close>, \<open>Watcher\<close> (\<open>storage.go\<close>, \<open>reader.go\<close>, \<open>writer.go\<close> with \<open>status.go\<close>,
    \<open>watcher.go\<close>): the storage, one definition per method. A running watch is a step relation over its
    goroutines, its client, the member clusters and the server. \<open>Concrete\<close> has clusters in memory at
    which theorems are instantiated.
  \<^item> \<open>API\<close>, \<open>Discovery\<close>, \<open>Install\<close>, \<open>Codec\<close>, \<open>Server\<close> (\<open>apis/v1alpha1\<close>, \<open>discovery.go\<close>, \<open>generic.go\<close> and
    \<open>install.go\<close>, \<open>scheme.go\<close> and \<open>protobuf.go\<close>, \<open>server.go\<close>): what is served, how it is installed,
    encoded and decoded, and the server whose members change; its operations run under one mutex, so
    they are functions on its state, and \<open>server_step\<close> is any of them with any outcome. Contexts are
    numbers, cancelled ones a set. \<open>Catalog\<close> is the specification the server refines. \<open>Scheme\<close>
    (\<open>scheme.go\<close>, \<open>groupversion.go\<close>, \<open>pkg/register\<close>): what is registered with which scheme.
  \<^item> \<open>Aggregator\<close> (\<open>pkg/controllers/api-aggregator\<close>): a reconcile pass over the server, as a function on
    server and world. It uses the server through the locale \<open>cluster_registry\<close>. \<open>Child\<close>: the running
    process, where passes are cut into steps at the server's mutex and resyncs come in between.
  \<^item> \<open>DeepCopy\<close> (\<open>zz_generated.deepcopy.go\<close>): the API types with pointers and slices on an explicit heap,
    and the generated copies. The locale \<open>copier\<close> is the contract of a deep copy; it is proved for
    slices, pointers and structs from their parts. It is the reason why the reconciler may be modelled
    with two values, the object read and the object changed.
  \<^item> \<open>Operator\<close> (\<open>pkg/controllers/operator\<close>): child objects and finalizer. \<open>Commands\<close> (\<open>cmd\<close>, the flags of
    all components, \<open>listen\<close>, \<open>Run\<close> and \<open>resyncLoop\<close>): how a process is put together.

  \<^bold>\<open>What is shown.\<close>
  \<^item> Storage: a name is resolved to its one owner or fails (never a guess when a cluster cannot be
    asked); lists are the sorted, marked union, and a selector on the virtual cluster label means what
    it says; every write reaches exactly the owner or the requested cluster, unmarked, and answers
    are marked; a forced update creates only what is absent everywhere.
  \<^item> Watch: no send on the closed channel; every cluster's events arrive in order, marked, after the
    initial ones; once cancelled everything ends, by a decreasing weight; one stream that ends takes the
    watch down; opening starts at the listed version and leaks nothing on failure.
  \<^item> Server: the union of consistent offers, whatever the order of the clusters; all storages
    installed; exactly one live context; a refinement of the catalog.
  \<^item> Controllers: a pass that succeeds leaves exactly the clusters of the spec served, Ready is
    truthful, one broken cluster does not disturb the others; no child workload without a finalizer, and
    passes converge; the labels of children lead back to their object. The steps of a pass amount to
    the pass; interleaved with anything, a pass that succeeds still ends with the clusters of its
    object, drops no cluster that stays, and takes a bounded number of steps.
  \<^item> Data: a deep copy is equal and independent; the scheme of the server types what is served, unless
    kinds clash.
  \<^item> Together (this theory): the arguments the operator writes are read back by the child as the
    object, URL and interval that were meant, and its passes serve the object's spec; no watch outlives
    the handler it was opened on.
  \<^item> Deviations of the code that the model exposes are stated as theorems too: lists that lose their
    continuation, collection deletes without validation, new clients that never reach the handler, a
    conflicting cluster that blocks the others, colliding child names, an interval that crashes the
    child, kinds of different clusters that no scheme can hold together.

  \<^bold>\<open>Choices.\<close> Every definition is total and executable; loops are structural recursion or terminate by
  the length of their input, so no fuel is needed. Libraries outside the repository are parameters;
  where a theorem needs their documented behaviour it is a named hypothesis (\<open>labels_laws\<close>,
  \<open>watch_laws\<close>, \<open>conditions_law\<close>, \<open>finalizer_laws\<close>, \<open>operator_laws\<close>, \<open>scheme_laws\<close>, \<open>meta_laws\<close>), with a concrete instance in the
  theorem's witness. A Go map is an association list in an arbitrary order.

  \<^bold>\<open>Not modelled.\<close> What \<open>k8s.io/apiserver\<close> does with the configuration and storages it is handed, HTTP
  itself, logging and the signal handler, and the integration test framework, which is input and
  output. Controller-runtime is taken to run one pass of a controller at a time, its default. Reads of
  the controllers through a lagging cache are covered only as far as \<open>operator_laws\<close> allows.
\<close>

section \<open>From the operator to the served API\<close>

definition demo_process ::
  "(unit, unit, mem host_client \<times> ((mem, nat, string) Controller \<Rightarrow> go_error option)) process" where
  "demo_process =
     \<lparr>pr_libFlags = [(''zap-devel'', StringVar (\<lambda>v z. z))], pr_libOptions = (), pr_GetConfig = Inr (),
      pr_NewManager = (\<lambda>_. Inr (demo_host [''east''], \<lambda>_. None))\<rparr>"

lemma demo_flags_distinct:
  "distinct (map fst (aggregator_flags demo_process ::
     (string \<times> ((mem, nat, string) aggregator_options \<times> server_options \<times> unit) flag) list))"
  by (simp add: aggregator_flags_def aggregator_RegisterFlags_def options_RegisterFlags_def demo_process_def)

lemma demo_started:
  "interval_ok team_web" "aa_name team_web \<noteq> ''''" "aa_namespace team_web \<noteq> ''''"
  "pr_GetConfig demo_process = Inr ()" "pr_NewManager demo_process () = Inr (demo_host [''east''], \<lambda>_. None)"
  by (simp_all add: interval_ok_def team_web_def demo_process_def)

text \<open>
  C16. The child serves its object: started with the arguments the operator puts into the Deployment,
  the api-aggregator reconciles exactly the object the Deployment was made for, publishes the URL of the
  Service made beside it, listens on the port the Service forwards to, and resyncs at the
  interval of the spec, every 30 seconds if the spec has none or zero.
\<close>

theorem child_serves_its_object:
  fixes env :: "('z, 'cfg, 'w host_client \<times> (('w, 'h, 'c) Controller \<Rightarrow> go_error option)) process"
  assumes "interval_ok aa" and "aa_name aa \<noteq> ''''" and "aa_namespace aa \<noteq> ''''"
    and "distinct (map fst (aggregator_flags env :: (string \<times> (('w, 'h, 'c) aggregator_options \<times> server_options \<times> 'z) flag) list))"
    and "pr_GetConfig env = Inr cfg" and "pr_NewManager env cfg = Inr (client, \<lambda>_. None)"
    and "dp_Containers (deployment U op aa) = [container]" and "svc_Ports (service U op aa) = [port]"
  shows "\<exists>ctl srv. aggregator_command K env (cn_Args container) = Inr (ctl, srv :: ('w, 'h, 'd) server) \<and>
    (co_Namespace ctl, co_AggregatedAPI ctl) = key_of aa \<and> co_Client ctl = client \<and>
    reconciler_url ctl srv = sprintf ''https://%s.%s.svc:%d''
      [svc_Name (service U op aa), svc_Namespace (service U op aa), strconv_Itoa (spt_Port port)] \<and>
    (spt_TargetPort port, opt_Port (sv_opts srv)) \<in> set (cn_Ports container) \<and>
    opt_ResyncInterval (sv_opts srv) = (case sp_ResyncInterval (aa_Spec aa) of
      None \<Rightarrow> 30 * second | Some d \<Rightarrow> if d = 0 then 30 * second else d)"
proof -
  have container: "cn_Args container = childArgs op aa" "cn_Ports container = [(''https'', 6443)]"
    using assms(7) by (auto simp: deployment_def)
  have port: "spt_Port port = 443" "spt_TargetPort port = ''https''" using assms(8) by (auto simp: service_def)
  note run = aggregator_command_child [OF assms(1,4,5,6,2,3), of K op]
  have itoa: "strconv_Itoa 443 = ''443''"
  proof -
    have "of_char (CHR ''4'') = (52 :: nat)" "of_char (CHR ''3'') = (51 :: nat)" by simp_all
    then have "char_of (52 :: nat) = CHR ''4''" "char_of (51 :: nat) = CHR ''3''" by (metis char_of_char)+
    then show ?thesis by (simp add: strconv_Itoa_def digits_rec digit_char_def)
  qed
  let ?url = "sprintf ''https://%s.%s.svc:443'' [childName aa, op_Namespace op]"
  have url: "?url \<noteq> ''''" "?url = sprintf ''https://%s.%s.svc:%d'' [childName aa, op_Namespace op, ''443'']" by simp_all
  have opts: "opt_Port (options_defaults (child_server_options aa)) = 6443"
    "opt_ResyncInterval (options_defaults (child_server_options aa)) = (case sp_ResyncInterval (aa_Spec aa) of
      None \<Rightarrow> 30 * second | Some d \<Rightarrow> if d = 0 then 30 * second else d)"
    by (auto simp: child_server_options_def options_defaults_def no_server_options_def second_def Let_def split: option.splits)
  show ?thesis
    unfolding container port itoa run
    using url opts by (auto simp: key_of_def reconciler_url_def server_New_def service_def)
qed

theorem child_serves_its_object_witness:
  "\<exists>ctl srv. aggregator_command demo_k8s demo_process (childArgs demo_operator team_web) =
     Inr (ctl, srv :: (mem, nat, unit) server) \<and> (co_Namespace ctl, co_AggregatedAPI ctl) = (''team'', ''web'') \<and>
     opt_ResyncInterval (sv_opts srv) = 30 * second"
proof -
  let ?d = "deployment demo_finalizers demo_operator team_web" and ?s = "service demo_finalizers demo_operator team_web"
  have containers: "dp_Containers ?d = [hd (dp_Containers ?d)]" "svc_Ports ?s = [hd (svc_Ports ?s)]"
    by (simp_all add: deployment_def service_def)
  have args: "cn_Args (hd (dp_Containers ?d)) = childArgs demo_operator team_web" by (simp add: deployment_def)
  from child_serves_its_object [where K = demo_k8s and ?'d = unit,
      OF demo_started(1-3) demo_flags_distinct demo_started(4,5) containers]
  obtain ctl and srv :: "(mem, nat, unit) server" where
    "aggregator_command demo_k8s demo_process (childArgs demo_operator team_web) = Inr (ctl, srv)"
    "(co_Namespace ctl, co_AggregatedAPI ctl) = key_of team_web"
    "opt_ResyncInterval (sv_opts srv) = (case sp_ResyncInterval (aa_Spec team_web) of
      None \<Rightarrow> 30 * second | Some d \<Rightarrow> if d = 0 then 30 * second else d)"
    unfolding args by (elim exE conjE) (rule that)
  then show ?thesis by (simp add: key_of_def team_web_def)
qed



text \<open>
  C40. An interval below zero crashes the child: the operator passes a negative interval of the spec on,
  the child accepts it, and its resync loop panics; with any other interval it does not.
\<close>

theorem negative_interval_crashes:
  fixes env :: "('z, 'cfg, 'w host_client \<times> (('w, 'h, 'c) Controller \<Rightarrow> go_error option)) process"
  assumes "interval_ok aa" and "aa_name aa \<noteq> ''''" and "aa_namespace aa \<noteq> ''''"
    and "distinct (map fst (aggregator_flags env :: (string \<times> (('w, 'h, 'c) aggregator_options \<times> server_options \<times> 'z) flag) list))"
    and "pr_GetConfig env = Inr cfg" and "pr_NewManager env cfg = Inr (client, \<lambda>_. None)"
  shows "\<exists>ctl srv. aggregator_command K env (childArgs op aa) = Inr (ctl, srv) \<and>
    (resyncLoop lib parse events srv w = None \<longleftrightarrow> (\<exists>d. sp_ResyncInterval (aa_Spec aa) = Some d \<and> d < 0))"
proof -
  have "opt_ResyncInterval (options_defaults (child_server_options aa)) \<le> 0 \<longleftrightarrow>
      (\<exists>d. sp_ResyncInterval (aa_Spec aa) = Some d \<and> d < 0)"
    by (auto simp: child_server_options_def options_defaults_def no_server_options_def second_def Let_def split: option.splits)
  then show ?thesis
    unfolding aggregator_command_child [OF assms(1,4,5,6,2,3)] by (simp add: resyncLoop_def server_New_def)
qed

theorem negative_interval_crashes_witness:
  "\<exists>ctl srv. aggregator_command demo_k8s demo_process
       (childArgs demo_operator (team_web\<lparr>aa_Spec := (aa_Spec team_web)\<lparr>sp_ResyncInterval := Some (- 5)\<rparr>\<rparr>)) =
     Inr (ctl, srv :: (mem, nat, unit) server) \<and> resyncLoop demo_libs apps_v1 [Tick] srv web_east = None"
proof -
  let ?aa = "team_web\<lparr>aa_Spec := (aa_Spec team_web)\<lparr>sp_ResyncInterval := Some (- 5)\<rparr>\<rparr>"
  have "interval_ok ?aa" "aa_name ?aa \<noteq> ''''" "aa_namespace ?aa \<noteq> ''''" by (simp_all add: interval_ok_def team_web_def)
  moreover have "pr_GetConfig demo_process = Inr ()" "pr_NewManager demo_process () = Inr (demo_host [''east''], \<lambda>_. None)"
    by (simp_all add: demo_process_def)
  moreover have "\<exists>d. sp_ResyncInterval (aa_Spec ?aa) = Some d \<and> d < 0" by simp
  ultimately show ?thesis
    using negative_interval_crashes [OF _ _ _ demo_flags_distinct, of ?aa] by blast
qed


section \<open>Watches and the server\<close>

text \<open>
  C10. No watch outlives its handler: when an operation on the server replaces the handler, the context
  of every storage of the old one is cancelled, and a watch on such a storage, which sees that context as
  its done channel, ends: it has boundedly many steps left, none of which needs the client, and the
  last closes the channel with every remote watch stopped.
\<close>

theorem swap_ends_watches:
  assumes "(server_step lib parse)\<^sup>*\<^sup>* (server_New opts) s" and "server_step lib parse s s'"
    and "ServeHTTP s = Serving g" and "ServeHTTP s' \<noteq> ServeHTTP s"
    and "(gv, prefix, storages) \<in> set (gs_rest g)" and "(name, st) \<in> set storages"
    and "watch_step\<^sup>*\<^sup>* (start_watch cs evs) m" and "mw_done m \<longleftrightarrow> storage_done st \<in> Some ` sv_cancelled s'"
    and "(own_step ^^ n) m m'"
  shows "storage_done st \<in> Some ` sv_cancelled s' \<and> n \<le> weight m \<and>
    ((\<exists>m''. internal m' m'') \<or> mw_closer m' = Closed \<and> set cs \<subseteq> mw_stopped m')"
proof -
  have "server_ok s" by (rule server.reached_invar [OF refl assms(1)])
  then have "serves_under (sv_stopWatches s) (Serving g)" using assms(3) by (simp add: server_ok_def ServeHTTP_def)
  then obtain ctx where ctx: "sv_stopWatches s = Some ctx" "storage_done st = Some ctx"
    using assms(5,6) by (fastforce simp: serves_under_def)
  have "set_option (sv_stopWatches s) \<subseteq> sv_cancelled s'"
    using step_cancels [OF assms(2)] assms(4) by (simp add: ServeHTTP_def)
  with ctx have cancelled: "storage_done st \<in> Some ` sv_cancelled s'" by simp
  with assms(8) have "mw_cancelled m \<or> mw_done m" by simp
  from winds_down [OF assms(7) this assms(9)] cancelled show ?thesis by blast
qed

theorem swap_ends_watches_witness:
  "\<exists>g s' (st :: (mem, nat) rest_storage) m. ServeHTTP with_east = Serving g \<and> RemoveCluster demo_libs with_east ''east'' = (None, s') \<and>
     storage_done st \<in> Some ` sv_cancelled s' \<and> (\<exists>m''. internal m m'') \<and> set (mw_remotes m) = {''east''}"
proof -
  obtain g gv prefix storages name st where serving: "ServeHTTP with_east = Serving g"
    and st: "(gv, prefix, storages) \<in> set (gs_rest g)" "(name, st) \<in> set storages"
    using with_east_serves by (elim exE conjE) (rule that)
  obtain s' where removed: "RemoveCluster demo_libs with_east ''east'' = (None, s')" and "ServeHTTP s' = NotFoundHandler"
    using without_east by blast
  then have swapped: "ServeHTTP s' \<noteq> ServeHTTP with_east" using serving by simp
  define m where "m b = (start_watch [''east''] [])\<lparr>mw_done := b\<rparr>" for b
  have run: "watch_step\<^sup>*\<^sup>* (start_watch [''east''] []) (m b)" for b
  proof (cases b)
    case True
    then have "watch_step (start_watch [''east''] []) (m b)" unfolding m_def using server_done by (auto simp: watch_step_def)
    then show ?thesis by (rule r_into_rtranclp)
  next
    case False
    then have "m b = start_watch [''east''] []" by (simp add: m_def start_watch_def)
    then show ?thesis by simp
  qed
  let ?b = "storage_done st \<in> Some ` sv_cancelled s'"
  have here: "mw_done (m ?b) \<longleftrightarrow> ?b" by (simp add: m_def)
  have none: "(own_step ^^ 0) (m ?b) (m ?b)" by simp
  have ends: "?b \<and> 0 \<le> weight (m ?b) \<and>
      ((\<exists>m''. internal (m ?b) m'') \<or> mw_closer (m ?b) = Closed \<and> set [''east''] \<subseteq> mw_stopped (m ?b))"
    by (rule swap_ends_watches [OF reached_with_east step_remove [OF removed] serving swapped st run here none])
  have "mw_closer (m ?b) \<noteq> Closed" and east: "set (mw_remotes (m ?b)) = {''east''}"
    by (simp_all add: m_def start_watch_def)
  with ends have going: "?b" "\<exists>m''. internal (m ?b) m''" by blast+
  show ?thesis
    by (rule exI [of _ g], rule exI [of _ s'], rule exI [of _ st], rule exI [of _ "m ?b"])
      (intro conjI serving removed going east)
qed

end
